theory Spec2Isabelle
  imports Complex_Main "HOL-Library.AList" "HOL-Library.Char_ord" "HOL-Library.List_Lexorder"
begin

section \<open>Errors\<close>

text \<open>
  Every \<^verbatim>\<open>raise ValueError(...)\<close> of the source is one constructor, carrying what the
  message interpolates. \<open>TypeError\<close> is Python's own error for a constructor called with
  keyword arguments that do not fit its signature and \<open>KeyError\<close> its error for a
  dictionary read at a missing key; \<open>IndexError\<close> and \<open>ShapeError\<close> are
  the errors of the matrix library for an index out of range and for operands whose
  shapes do not fit.
\<close>

datatype error =
    NodeExists string
  | UnknownComponentType string
  | BadIoType string
  | TypeError string
  | SourceNotFound string
  | DestNotFound string
  | NotOutputPort string string
  | NotInputNode string
  | NotInputPort string string
  | NotOutputNode string
  | ComponentExists string
  | NoBranchesInConfig
  | MappingUnknownComponent string
  | UnknownBranch string string string
  | UnknownHubInput string
  | UnknownHubOutput string
  | NoGlobalBranches
  | InputPortNotMapped string string
  | OutputPortNotMapped string string
  | IndexError
  | ShapeError
  | MatricesNotSet
  | QNotSquare nat nat
  | QSingular
  | KeyError string

section \<open>Dictionaries\<close>

text \<open>
  A Python \<^verbatim>\<open>dict\<close> keeps its keys in insertion order, and assigning to a key that is
  present keeps the key's position. It is an association list with distinct keys:
  \<open>map_of\<close> reads it and \<open>AList.update\<close> assigns to it.
\<close>

type_synonym ('k, 'v) dict = "('k \<times> 'v) list"

definition dict_get :: "('k, 'v) dict \<Rightarrow> 'k \<Rightarrow> 'v option" where
  "dict_get d k = map_of d k"

definition dict_set :: "'k \<Rightarrow> 'v \<Rightarrow> ('k, 'v) dict \<Rightarrow> ('k, 'v) dict" where
  "dict_set k v d = AList.update k v d"

definition dict_keys :: "('k, 'v) dict \<Rightarrow> 'k list" where
  "dict_keys d = map fst d"

definition dict_has :: "('k, 'v) dict \<Rightarrow> 'k \<Rightarrow> bool" where
  "dict_has d k = (k \<in> set (dict_keys d))"

section \<open>Matrices\<close>

text \<open>
  The matrices of the source are the symbolic library's dense matrices: a row count, a
  column count and the entries. The entries are expressions; they are modelled as the
  elements of a field \<open>'a\<close>, that is up to algebraic equality, which is exact for what
  the assembler does to them (products with 0, 1 and -1, and sums with 0). Division in
  the model agrees with the library's for a divisor that is not zero.
\<close>

record 'a matrix =
  rows :: nat
  cols :: nat
  elems :: "'a list list"

definition zeros :: "nat \<Rightarrow> nat \<Rightarrow> ('a::zero) matrix" where
  "zeros m n = \<lparr>rows = m, cols = n, elems = replicate m (replicate n 0)\<rparr>"

definition eye :: "nat \<Rightarrow> ('a::{zero,one}) matrix" where
  "eye n = \<lparr>rows = n, cols = n,
            elems = map (\<lambda>i. map (\<lambda>j. if i = j then 1 else 0) [0..<n]) [0..<n]\<rparr>"

definition from_rows :: "'a list list \<Rightarrow> 'a matrix" where
  \<comment> \<open>\<^verbatim>\<open>sympy.Matrix([[...], ...])\<close> on rows of one length\<close>
  "from_rows rs = \<lparr>rows = length rs, cols = (case rs of [] \<Rightarrow> 0 | r # _ \<Rightarrow> length r), elems = rs\<rparr>"

definition set_entry :: "'a matrix \<Rightarrow> nat \<Rightarrow> nat \<Rightarrow> 'a \<Rightarrow> error + 'a matrix" where
  \<comment> \<open>\<^verbatim>\<open>M[i, j] = v\<close>\<close>
  "set_entry M i j v =
     (if i < rows M \<and> j < cols M
      then Inr (M\<lparr>elems := (elems M)[i := ((elems M) ! i)[j := v]]\<rparr>)
      else Inl IndexError)"

definition col_join :: "'a matrix \<Rightarrow> 'a matrix \<Rightarrow> error + 'a matrix" where
  \<comment> \<open>the first matrix above the second; a matrix without rows can always be stacked\<close>
  "col_join A B =
     (if rows A = 0 \<and> cols A \<noteq> cols B then Inr B
      else if cols A \<noteq> cols B then Inl ShapeError
      else Inr \<lparr>rows = rows A + rows B, cols = cols A, elems = elems A @ elems B\<rparr>)"

fun vstack_from :: "'a matrix \<Rightarrow> 'a matrix list \<Rightarrow> error + 'a matrix" where
  "vstack_from A [] = Inr A"
| "vstack_from A (B # Bs) =
     (case col_join A B of Inl e \<Rightarrow> Inl e | Inr AB \<Rightarrow> vstack_from AB Bs)"

definition vstack :: "'a matrix list \<Rightarrow> error + 'a matrix" where
  \<comment> \<open>\<^verbatim>\<open>Matrix.vstack(*args)\<close>: \<^verbatim>\<open>reduce(col_join, args)\<close>, the empty matrix for no argument\<close>
  "vstack Ms = (case Ms of [] \<Rightarrow> Inr \<lparr>rows = 0, cols = 0, elems = []\<rparr>
                | A # As \<Rightarrow> vstack_from A As)"

definition column :: "'a matrix \<Rightarrow> nat \<Rightarrow> 'a list" where
  "column M j = map (\<lambda>r. r ! j) (elems M)"

definition dot :: "('a::semiring_0) list \<Rightarrow> 'a list \<Rightarrow> 'a" where
  "dot u v = sum_list (map2 (*) u v)"

definition mat_mul :: "('a::semiring_0) matrix \<Rightarrow> 'a matrix \<Rightarrow> error + 'a matrix" where
  \<comment> \<open>\<^verbatim>\<open>A * B\<close>\<close>
  "mat_mul A B =
     (if cols A \<noteq> rows B then Inl ShapeError
      else Inr \<lparr>rows = rows A, cols = cols B,
                elems = map (\<lambda>r. map (\<lambda>j. dot r (column B j)) [0..<cols B]) (elems A)\<rparr>)"

definition mat_neg :: "('a::uminus) matrix \<Rightarrow> 'a matrix" where
  \<comment> \<open>\<^verbatim>\<open>-A\<close>\<close>
  "mat_neg A = A\<lparr>elems := map (map uminus) (elems A)\<rparr>"

section \<open>Components\<close>

text \<open>
  \<^verbatim>\<open>components/base.py\<close>, \<^verbatim>\<open>components/converters.py\<close>, \<^verbatim>\<open>components/storage.py\<close>.
  The subclasses of \<^verbatim>\<open>Component\<close> are the variants of one datatype; a value holds what
  the constructor stores (the name, the parameters and, for the cogeneration unit, its
  list of electrical ports). The two port registries are filled by the constructor with
  \<^verbatim>\<open>add_input_port\<close> and \<^verbatim>\<open>add_output_port\<close>, here \<open>input_ports\<close> and \<open>output_ports\<close>.
\<close>

datatype 'a component =
    CHPBackPressure (name: string) (eta_q: 'a) (eta_w: 'a) (elec_ports: "string list")
  | Boiler (name: string) (eta: 'a)
  | Storage (name: string) (eta_c: 'a) (eta_d: 'a)
  | ConvertibleLoad (name: string) (substitution_ratio: 'a)
  | ElectricBoiler (name: string) (eta: 'a)
  | HeatPump (name: string) (cop: 'a)
  | AbsorptionChiller (name: string) (cop: 'a)
  | Transformer (name: string) (eta: 'a)
  | PowerToGas (name: string) (eta: 'a)

definition add_port :: "string \<Rightarrow> nat \<Rightarrow> (string, nat) dict \<Rightarrow> (string, nat) dict" where
  \<comment> \<open>\<^verbatim>\<open>self.input_ports[port_name] = port_index\<close>, and the same for output ports\<close>
  "add_port port_name port_index ports = dict_set port_name port_index ports"

fun add_elec_ports :: "nat \<Rightarrow> string list \<Rightarrow> (string, nat) dict \<Rightarrow> (string, nat) dict" where
  \<comment> \<open>\<^verbatim>\<open>for i, port_name in enumerate(self.elec_ports): self.add_output_port(port_name, 2 + i)\<close>\<close>
  "add_elec_ports i [] ports = ports"
| "add_elec_ports i (p # ps) ports = add_elec_ports (Suc i) ps (add_port p (2 + i) ports)"

fun input_ports :: "'a component \<Rightarrow> (string, nat) dict" where
  "input_ports (CHPBackPressure n q w ps) = add_port ''fuel_in'' 0 []"
| "input_ports (Boiler n e) = add_port ''fuel_in'' 0 []"
| "input_ports (Storage n c d) = add_port ''delta_soc'' 2 (add_port ''energy_in'' 0 [])"
| "input_ports (ConvertibleLoad n r) = add_port ''heat_supply'' 1 (add_port ''elec_supply'' 0 [])"
| "input_ports (ElectricBoiler n e) = add_port ''elec_in'' 0 []"
| "input_ports (HeatPump n c) = add_port ''elec_in'' 0 []"
| "input_ports (AbsorptionChiller n c) = add_port ''heat_in'' 0 []"
| "input_ports (Transformer n e) = add_port ''elec_in'' 0 []"
| "input_ports (PowerToGas n e) = add_port ''elec_in'' 0 []"

fun output_ports :: "'a component \<Rightarrow> (string, nat) dict" where
  "output_ports (CHPBackPressure n q w ps) = add_elec_ports 0 ps (add_port ''heat_out'' 1 [])"
| "output_ports (Boiler n e) = add_port ''heat_out'' 1 []"
| "output_ports (Storage n c d) = add_port ''energy_out'' 1 []"
| "output_ports (ConvertibleLoad n r) = add_port ''satisfied_demand'' 2 []"
| "output_ports (ElectricBoiler n e) = add_port ''heat_out'' 1 []"
| "output_ports (HeatPump n c) = add_port ''heat_out'' 1 []"
| "output_ports (AbsorptionChiller n c) = add_port ''cool_out'' 1 []"
| "output_ports (Transformer n e) = add_port ''elec_out'' 1 []"
| "output_ports (PowerToGas n e) = add_port ''gas_out'' 1 []"

fun get_characteristic_matrix :: "('a::field) component \<Rightarrow> 'a matrix" where
  "get_characteristic_matrix (CHPBackPressure n q w ps) =
     from_rows [[q, - 1] @ replicate (length ps) 0, [w, 0] @ replicate (length ps) (- 1)]"
| "get_characteristic_matrix (Boiler n e) = from_rows [[e, - 1]]"
| "get_characteristic_matrix (Storage n c d) = from_rows [[c, - 1 / d, - 1]]"
| "get_characteristic_matrix (ConvertibleLoad n r) = from_rows [[- 1, - r, 1]]"
| "get_characteristic_matrix (ElectricBoiler n e) = from_rows [[e, - 1]]"
| "get_characteristic_matrix (HeatPump n c) = from_rows [[c, - 1]]"
| "get_characteristic_matrix (AbsorptionChiller n c) = from_rows [[c, - 1]]"
| "get_characteristic_matrix (Transformer n e) = from_rows [[e, - 1]]"
| "get_characteristic_matrix (PowerToGas n e) = from_rows [[e, - 1]]"

fun class_name :: "'a component \<Rightarrow> string" where
  \<comment> \<open>\<^verbatim>\<open>comp_instance.__class__.__name__\<close>\<close>
  "class_name (CHPBackPressure n q w ps) = ''CHPBackPressure''"
| "class_name (Boiler n e) = ''Boiler''"
| "class_name (Storage n c d) = ''Storage''"
| "class_name (ConvertibleLoad n r) = ''ConvertibleLoad''"
| "class_name (ElectricBoiler n e) = ''ElectricBoiler''"
| "class_name (HeatPump n c) = ''HeatPump''"
| "class_name (AbsorptionChiller n c) = ''AbsorptionChiller''"
| "class_name (Transformer n e) = ''Transformer''"
| "class_name (PowerToGas n e) = ''PowerToGas''"

fun isinstance_Storage :: "'a component \<Rightarrow> bool" where
  \<comment> \<open>\<^verbatim>\<open>isinstance(comp_instance, Storage)\<close>\<close>
  "isinstance_Storage (Storage n c d) = True"
| "isinstance_Storage _ = False"

text \<open>
  The keyword arguments a component is constructed from, by shape. The constructor of
  the cogeneration unit takes the electrical ports from \<^verbatim>\<open>kwargs['elec_ports']\<close> when
  that key is present with a non-empty list, and \<^verbatim>\<open>['elec_out']\<close> otherwise; the empty
  list stands for both an absent key and an empty value.
\<close>

datatype 'a init_args =
    ChpArgs 'a 'a "string list"
  | EtaArgs 'a
  | CopArgs 'a
  | StorageArgs 'a 'a
  | RatioArgs 'a

definition component_types :: "string list" where
  \<comment> \<open>the keys of \<^verbatim>\<open>GraphEnergyHub._component_types\<close>\<close>
  "component_types = [''CHPBackPressure'', ''Boiler'', ''Storage'', ''ConvertibleLoad'',
     ''ElectricBoiler'', ''HeatPump'', ''AbsorptionChiller'', ''Transformer'', ''PowerToGas'']"

definition instantiate :: "string \<Rightarrow> string \<Rightarrow> 'a init_args \<Rightarrow> error + 'a component" where
  \<comment> \<open>\<^verbatim>\<open>comp_class(name=name, **params)\<close> for \<^verbatim>\<open>comp_class = component_types[ty]\<close>\<close>
  "instantiate ty n args =
     (if ty = ''CHPBackPressure'' then
        (case args of ChpArgs q w ps \<Rightarrow>
           Inr (CHPBackPressure n q w (if ps \<noteq> [] then ps else [''elec_out'']))
         | _ \<Rightarrow> Inl (TypeError ty))
      else if ty = ''Boiler'' then
        (case args of EtaArgs e \<Rightarrow> Inr (Boiler n e) | _ \<Rightarrow> Inl (TypeError ty))
      else if ty = ''Storage'' then
        (case args of StorageArgs c d \<Rightarrow> Inr (Storage n c d) | _ \<Rightarrow> Inl (TypeError ty))
      else if ty = ''ConvertibleLoad'' then
        (case args of RatioArgs r \<Rightarrow> Inr (ConvertibleLoad n r) | _ \<Rightarrow> Inl (TypeError ty))
      else if ty = ''ElectricBoiler'' then
        (case args of EtaArgs e \<Rightarrow> Inr (ElectricBoiler n e) | _ \<Rightarrow> Inl (TypeError ty))
      else if ty = ''HeatPump'' then
        (case args of CopArgs c \<Rightarrow> Inr (HeatPump n c) | _ \<Rightarrow> Inl (TypeError ty))
      else if ty = ''AbsorptionChiller'' then
        (case args of CopArgs c \<Rightarrow> Inr (AbsorptionChiller n c) | _ \<Rightarrow> Inl (TypeError ty))
      else if ty = ''Transformer'' then
        (case args of EtaArgs e \<Rightarrow> Inr (Transformer n e) | _ \<Rightarrow> Inl (TypeError ty))
      else if ty = ''PowerToGas'' then
        (case args of EtaArgs e \<Rightarrow> Inr (PowerToGas n e) | _ \<Rightarrow> Inl (TypeError ty))
      else Inl (UnknownComponentType ty))"

section \<open>The energy hub\<close>

text \<open>
  \<^verbatim>\<open>core/energy_hub.py\<close>. Branch indices are positions in \<open>global_branches\<close>, natural
  numbers. The three matrices are \<^verbatim>\<open>None\<close> until the assembler sets them.
\<close>

record 'a energy_hub =
  hub_name :: string
  components :: "(string, 'a component) dict"
  global_branches :: "string list"
  port_to_global_branch_map :: "(string \<times> string, nat) dict"
  hub_input_branch_indices :: "nat list"
  hub_output_branch_indices :: "nat list"
  X_matrix :: "'a matrix option"
  Y_matrix :: "'a matrix option"
  Z_matrix :: "'a matrix option"

definition new_energy_hub :: "string \<Rightarrow> 'a energy_hub" where
  "new_energy_hub n =
     \<lparr>hub_name = n, components = [], global_branches = [], port_to_global_branch_map = [],
      hub_input_branch_indices = [], hub_output_branch_indices = [],
      X_matrix = None, Y_matrix = None, Z_matrix = None\<rparr>"

definition hub_add_component :: "'a component \<Rightarrow> 'a energy_hub \<Rightarrow> error + 'a energy_hub" where
  \<comment> \<open>\<^verbatim>\<open>EnergyHub.add_component\<close>\<close>
  "hub_add_component c hub =
     (if dict_has (components hub) (name c) then Inl (ComponentExists (name c))
      else Inr (hub\<lparr>components := dict_set (name c) c (components hub)\<rparr>))"

record 'a config =
  cfg_components :: "(string \<times> string \<times> 'a init_args) list"
  cfg_branches :: "string list"
  cfg_port_mappings :: "(string, (string, string) dict) dict"
  cfg_hub_inputs :: "string list"
  cfg_hub_outputs :: "string list"

fun load_components ::
  "(string \<times> string \<times> 'a init_args) list \<Rightarrow> 'a energy_hub \<Rightarrow> error + 'a energy_hub" where
  "load_components [] hub = Inr hub"
| "load_components ((comp_name, comp_type_str, comp_params) # rest) hub =
     (if comp_type_str \<notin> set component_types then Inl (UnknownComponentType comp_type_str)
      else case instantiate comp_type_str comp_name comp_params of
             Inl e \<Rightarrow> Inl e
           | Inr component_instance \<Rightarrow>
               (case hub_add_component component_instance hub of
                  Inl e \<Rightarrow> Inl e
                | Inr hub' \<Rightarrow> load_components rest hub'))"

definition branch_name_to_index :: "string list \<Rightarrow> (string, nat) dict" where
  \<comment> \<open>\<^verbatim>\<open>{name: i for i, name in enumerate(self.global_branches)}\<close>\<close>
  "branch_name_to_index bs = fold (\<lambda>(i, n) d. dict_set n i d) (enumerate 0 bs) []"

fun load_ports ::
  "(string, nat) dict \<Rightarrow> string \<Rightarrow> (string \<times> string) list \<Rightarrow>
   (string \<times> string, nat) dict \<Rightarrow> error + (string \<times> string, nat) dict" where
  "load_ports idx comp_name [] m = Inr m"
| "load_ports idx comp_name ((port_name, branch_name) # rest) m =
     (case dict_get idx branch_name of
        None \<Rightarrow> Inl (UnknownBranch branch_name comp_name port_name)
      | Some i \<Rightarrow> load_ports idx comp_name rest (dict_set (comp_name, port_name) i m))"

fun load_port_mappings ::
  "(string, 'a component) dict \<Rightarrow> (string, nat) dict \<Rightarrow>
   (string \<times> (string, string) dict) list \<Rightarrow>
   (string \<times> string, nat) dict \<Rightarrow> error + (string \<times> string, nat) dict" where
  "load_port_mappings comps idx [] m = Inr m"
| "load_port_mappings comps idx ((comp_name, port_mappings) # rest) m =
     (if \<not> dict_has comps comp_name then Inl (MappingUnknownComponent comp_name)
      else case load_ports idx comp_name port_mappings m of
             Inl e \<Rightarrow> Inl e
           | Inr m' \<Rightarrow> load_port_mappings comps idx rest m')"

fun load_indices ::
  "(string \<Rightarrow> error) \<Rightarrow> (string, nat) dict \<Rightarrow> string list \<Rightarrow> nat list \<Rightarrow> error + nat list" where
  "load_indices err idx [] acc = Inr acc"
| "load_indices err idx (b # rest) acc =
     (case dict_get idx b of
        None \<Rightarrow> Inl (err b)
      | Some i \<Rightarrow> load_indices err idx rest (acc @ [i]))"

definition load_config :: "'a config \<Rightarrow> 'a energy_hub \<Rightarrow> error + 'a energy_hub" where
  "load_config cfg hub =
     (case load_components (cfg_components cfg) hub of
        Inl e \<Rightarrow> Inl e
      | Inr hub1 \<Rightarrow>
          (if cfg_branches cfg = [] then Inl NoBranchesInConfig
           else
             (let idx = branch_name_to_index (cfg_branches cfg) in
              (case load_port_mappings (components hub1) idx (cfg_port_mappings cfg)
                      (port_to_global_branch_map hub1) of
                 Inl e \<Rightarrow> Inl e
               | Inr m \<Rightarrow>
                   (case load_indices UnknownHubInput idx (cfg_hub_inputs cfg)
                           (hub_input_branch_indices hub1) of
                      Inl e \<Rightarrow> Inl e
                    | Inr ins \<Rightarrow>
                        (case load_indices UnknownHubOutput idx (cfg_hub_outputs cfg)
                                (hub_output_branch_indices hub1) of
                           Inl e \<Rightarrow> Inl e
                         | Inr outs \<Rightarrow>
                             Inr (hub1\<lparr>global_branches := cfg_branches cfg,
                                       port_to_global_branch_map := m,
                                       hub_input_branch_indices := ins,
                                       hub_output_branch_indices := outs\<rparr>)))))))"

definition set_system_matrices ::
  "'a matrix \<Rightarrow> 'a matrix \<Rightarrow> 'a matrix \<Rightarrow> 'a energy_hub \<Rightarrow> 'a energy_hub" where
  "set_system_matrices X Y Z hub = hub\<lparr>X_matrix := Some X, Y_matrix := Some Y, Z_matrix := Some Z\<rparr>"

section \<open>The system matrix assembler\<close>

text \<open>
  \<^verbatim>\<open>core/matrix_builder.py\<close>. \<open>place_ports\<close> is one of the two loops over a port registry:
  it writes \<open>v\<close> (1 for the input ports, -1 for the output ports) at the port's local
  row and its branch's column, and raises at the first port without a binding.
\<close>

fun place_ports ::
  "(string \<times> string, nat) dict \<Rightarrow> string \<Rightarrow> 'a \<Rightarrow> (string \<Rightarrow> string \<Rightarrow> error) \<Rightarrow>
   (string \<times> nat) list \<Rightarrow> 'a matrix \<Rightarrow> error + 'a matrix" where
  "place_ports pm comp_name v err [] Ag = Inr Ag"
| "place_ports pm comp_name v err ((port_name, local_port_index) # rest) Ag =
     (case dict_get pm (comp_name, port_name) of
        Some global_branch_index \<Rightarrow>
          (case set_entry Ag local_port_index global_branch_index v of
             Inl e \<Rightarrow> Inl e
           | Inr Ag' \<Rightarrow> place_ports pm comp_name v err rest Ag')
      | None \<Rightarrow> Inl (err port_name comp_name))"

definition build_Ag_global ::
  "('a::field) energy_hub \<Rightarrow> string \<Rightarrow> 'a component \<Rightarrow> error + 'a matrix" where
  "build_Ag_global hub comp_name component =
     (let B = length (global_branches hub);
          Hg = get_characteristic_matrix component;
          num_comp_ports = cols Hg;
          Ag_global = zeros num_comp_ports B
      in case place_ports (port_to_global_branch_map hub) comp_name 1 InputPortNotMapped
                (input_ports component) Ag_global of
           Inl e \<Rightarrow> Inl e
         | Inr Ag1 \<Rightarrow>
             place_ports (port_to_global_branch_map hub) comp_name (- 1) OutputPortNotMapped
               (output_ports component) Ag1)"

fun build_Z_blocks ::
  "('a::field) energy_hub \<Rightarrow> (string \<times> 'a component) list \<Rightarrow> error + 'a matrix list" where
  "build_Z_blocks hub [] = Inr []"
| "build_Z_blocks hub ((comp_name, component) # rest) =
     (case build_Ag_global hub comp_name component of
        Inl e \<Rightarrow> Inl e
      | Inr Ag_global \<Rightarrow>
          (case mat_mul (get_characteristic_matrix component) Ag_global of
             Inl e \<Rightarrow> Inl e
           | Inr Zg \<Rightarrow>
               (case build_Z_blocks hub rest of
                  Inl e \<Rightarrow> Inl e
                | Inr Z_blocks \<Rightarrow> Inr (Zg # Z_blocks))))"

fun place_indicators :: "nat \<Rightarrow> nat list \<Rightarrow> ('a::one) matrix \<Rightarrow> error + 'a matrix" where
  \<comment> \<open>\<^verbatim>\<open>for i, branch_index in enumerate(indices): M[i, branch_index] = 1\<close>\<close>
  "place_indicators i [] M = Inr M"
| "place_indicators i (branch_index # rest) M =
     (case set_entry M i branch_index 1 of
        Inl e \<Rightarrow> Inl e
      | Inr M' \<Rightarrow> place_indicators (Suc i) rest M')"

definition system_matrices ::
  "('a::field) energy_hub \<Rightarrow> error + ('a matrix \<times> 'a matrix \<times> 'a matrix)" where
  \<comment> \<open>the body of \<^verbatim>\<open>build_system_matrices\<close> up to the three matrices\<close>
  "system_matrices hub =
     (let B = length (global_branches hub) in
      if B = 0 then Inl NoGlobalBranches
      else case build_Z_blocks hub (components hub) of
        Inl e \<Rightarrow> Inl e
      | Inr Z_blocks \<Rightarrow>
          (case (if Z_blocks = [] then Inr (zeros 0 B) else vstack Z_blocks) of
             Inl e \<Rightarrow> Inl e
           | Inr Z \<Rightarrow>
               (case place_indicators 0 (hub_input_branch_indices hub)
                       (zeros (length (hub_input_branch_indices hub)) B) of
                  Inl e \<Rightarrow> Inl e
                | Inr X \<Rightarrow>
                    (case place_indicators 0 (hub_output_branch_indices hub)
                            (zeros (length (hub_output_branch_indices hub)) B) of
                       Inl e \<Rightarrow> Inl e
                     | Inr Y \<Rightarrow> Inr (X, Y, Z)))))"

definition build_system_matrices :: "('a::field) energy_hub \<Rightarrow> error + 'a energy_hub" where
  \<comment> \<open>the hub with its matrices set; the matrices returned are those three fields\<close>
  "build_system_matrices hub =
     (case system_matrices hub of
        Inl e \<Rightarrow> Inl e
      | Inr (X, Y, Z) \<Rightarrow> Inr (set_system_matrices X Y Z hub))"

section \<open>Coupling derivation\<close>

text \<open>
  \<^verbatim>\<open>analysis/symbolic_analyzer.py\<close>. The exact inversion \<^verbatim>\<open>Q.inv()\<close> belongs to the
  matrix library; it is the parameter \<open>minv\<close>, which returns \<open>None\<close> where the library
  raises its error for a matrix that is not invertible.
\<close>

definition derive_coupling_matrix ::
  "(('a::field) matrix \<Rightarrow> 'a matrix option) \<Rightarrow> 'a energy_hub \<Rightarrow> error + 'a matrix" where
  "derive_coupling_matrix minv hub =
     (case (X_matrix hub, Y_matrix hub, Z_matrix hub) of
        (Some X, Some Y, Some Z) \<Rightarrow>
          (case vstack [X, Z] of
             Inl e \<Rightarrow> Inl e
           | Inr Q \<Rightarrow>
               (let num_hub_inputs = rows X;
                    num_Z_rows = rows Z
                in (case vstack [mat_neg (eye num_hub_inputs), zeros num_Z_rows num_hub_inputs] of
                      Inl e \<Rightarrow> Inl e
                    | Inr R \<Rightarrow>
                        (if rows Q \<noteq> cols Q then Inl (QNotSquare (rows Q) (cols Q))
                         else (case minv Q of
                                 None \<Rightarrow> Inl QSingular
                               | Some Q_inv \<Rightarrow>
                                   (case mat_mul (mat_neg Y) Q_inv of
                                      Inl e \<Rightarrow> Inl e
                                    | Inr YQ \<Rightarrow> mat_mul YQ R))))))
      | _ \<Rightarrow> Inl MatricesNotSet)"

section \<open>The topology graph\<close>

text \<open>
  \<^verbatim>\<open>graph/builder.py\<close>. The graph is the graph library's directed graph, which holds at
  most one edge for an ordered pair of nodes: a dictionary of the nodes, \<open>g_nodes\<close>, and
  for every node a dictionary from its successors to the attributes of the edge,
  \<open>g_succ\<close>. Adding an edge between two nodes that already have one assigns to the
  same key, so the new attributes replace the old ones and the edge keeps its place.
  The edges are enumerated node by node in the order the nodes were added, and for one
  node in the order its successors were first connected.
\<close>

datatype node_attrs = ComponentNode | IoNode string

record edge_data =
  from_port :: string
  to_port :: string
  branch_name :: string

record 'a graph_energy_hub =
  g_name :: string
  g_nodes :: "(string, node_attrs) dict"
  g_succ :: "(string, (string, edge_data) dict) dict"
  component_instances :: "(string, 'a component) dict"
  component_init_args :: "(string, 'a init_args) dict"
  io_nodes :: "(string, string) dict"

definition new_graph_energy_hub :: "string \<Rightarrow> 'a graph_energy_hub" where
  "new_graph_energy_hub n =
     \<lparr>g_name = n, g_nodes = [], g_succ = [], component_instances = [],
      component_init_args = [], io_nodes = []\<rparr>"

definition graph_add_node :: "string \<Rightarrow> node_attrs \<Rightarrow> 'a graph_energy_hub \<Rightarrow> 'a graph_energy_hub" where
  \<comment> \<open>\<^verbatim>\<open>self.graph.add_node(name, ...)\<close>: a new node starts without successors\<close>
  "graph_add_node n attrs g =
     (if dict_has (g_nodes g) n then g\<lparr>g_nodes := dict_set n attrs (g_nodes g)\<rparr>
      else g\<lparr>g_nodes := dict_set n attrs (g_nodes g), g_succ := dict_set n [] (g_succ g)\<rparr>)"

definition graph_add_edge ::
  "string \<Rightarrow> string \<Rightarrow> edge_data \<Rightarrow> 'a graph_energy_hub \<Rightarrow> 'a graph_energy_hub" where
  \<comment> \<open>\<^verbatim>\<open>self.graph.add_edge(u, v, from_port=..., to_port=..., branch_name=...)\<close> on two nodes of the graph\<close>
  "graph_add_edge u v d g =
     g\<lparr>g_succ := dict_set u
          (dict_set v d (case dict_get (g_succ g) u of None \<Rightarrow> [] | Some nbrs \<Rightarrow> nbrs))
          (g_succ g)\<rparr>"

definition graph_edges :: "'a graph_energy_hub \<Rightarrow> (string \<times> string \<times> edge_data) list" where
  \<comment> \<open>\<^verbatim>\<open>self.graph.edges(data=True)\<close>\<close>
  "graph_edges g = concat (map (\<lambda>(u, nbrs). map (\<lambda>(v, d). (u, v, d)) nbrs) (g_succ g))"

definition add_component ::
  "string \<Rightarrow> string \<Rightarrow> 'a init_args \<Rightarrow> 'a graph_energy_hub \<Rightarrow> error + 'a graph_energy_hub" where
  "add_component n component_type params g =
     (if dict_has (g_nodes g) n then Inl (NodeExists n)
      else if component_type \<notin> set component_types then Inl (UnknownComponentType component_type)
      else (case instantiate component_type n params of
              Inl e \<Rightarrow> Inl e
            | Inr component_instance \<Rightarrow>
                Inr (graph_add_node n ComponentNode
                       (g\<lparr>component_init_args := dict_set n params (component_init_args g),
                          component_instances := dict_set n component_instance (component_instances g)\<rparr>))))"

definition add_io_node :: "string \<Rightarrow> string \<Rightarrow> 'a graph_energy_hub \<Rightarrow> error + 'a graph_energy_hub" where
  "add_io_node n io_type g =
     (if dict_has (g_nodes g) n then Inl (NodeExists n)
      else if io_type \<notin> set [''input'', ''output''] then Inl (BadIoType io_type)
      else Inr ((graph_add_node n (IoNode io_type) g)\<lparr>io_nodes := dict_set n io_type (io_nodes g)\<rparr>))"

definition make_branch_name :: "string \<Rightarrow> string \<Rightarrow> string \<Rightarrow> string \<Rightarrow> string" where
  \<comment> \<open>\<^verbatim>\<open>f"{from_node}_{from_port}_to_{to_node}_{to_port}"\<close>\<close>
  "make_branch_name fn fp tn tp = fn @ ''_'' @ fp @ ''_to_'' @ tn @ ''_'' @ tp"

definition source_check :: "'a graph_energy_hub \<Rightarrow> string \<Rightarrow> string \<Rightarrow> error option" where
  \<comment> \<open>the validation of the source port; the nodes are in the graph\<close>
  "source_check g fn fp =
     (case dict_get (g_nodes g) fn of
        Some ComponentNode \<Rightarrow>
          (case dict_get (component_instances g) fn of
             Some c \<Rightarrow> if \<not> dict_has (output_ports c) fp then Some (NotOutputPort fp fn) else None
           | None \<Rightarrow> Some (KeyError fn))
      | Some (IoNode t) \<Rightarrow>
          if dict_get (io_nodes g) fn \<noteq> Some ''input'' then Some (NotInputNode fn) else None
      | None \<Rightarrow> None)"

definition dest_check :: "'a graph_energy_hub \<Rightarrow> string \<Rightarrow> string \<Rightarrow> error option" where
  "dest_check g tn tp =
     (case dict_get (g_nodes g) tn of
        Some ComponentNode \<Rightarrow>
          (case dict_get (component_instances g) tn of
             Some c \<Rightarrow> if \<not> dict_has (input_ports c) tp then Some (NotInputPort tp tn) else None
           | None \<Rightarrow> Some (KeyError tn))
      | Some (IoNode t) \<Rightarrow>
          if dict_get (io_nodes g) tn \<noteq> Some ''output'' then Some (NotOutputNode tn) else None
      | None \<Rightarrow> None)"

definition connect ::
  "string \<Rightarrow> string \<Rightarrow> string \<Rightarrow> string \<Rightarrow> 'a graph_energy_hub \<Rightarrow> error + 'a graph_energy_hub" where
  "connect fn fp tn tp g =
     (if \<not> dict_has (g_nodes g) fn then Inl (SourceNotFound fn)
      else if \<not> dict_has (g_nodes g) tn then Inl (DestNotFound tn)
      else (case source_check g fn fp of
              Some e \<Rightarrow> Inl e
            | None \<Rightarrow>
                (case dest_check g tn tp of
                   Some e \<Rightarrow> Inl e
                 | None \<Rightarrow>
                     Inr (graph_add_edge fn tn
                            \<lparr>from_port = fp, to_port = tp,
                             branch_name = make_branch_name fn fp tn tp\<rparr> g))))"

section \<open>Compilation\<close>

text \<open>
  \<^verbatim>\<open>GraphEnergyHub.build\<close>. \<open>pm_set\<close> is the assignment
  \<^verbatim>\<open>config['port_mappings'][c][p] = b\<close> on a dictionary whose missing keys start as
  the empty dictionary.
\<close>

definition pm_set ::
  "string \<Rightarrow> string \<Rightarrow> string \<Rightarrow> (string, (string, string) dict) dict \<Rightarrow>
   (string, (string, string) dict) dict" where
  "pm_set c p b pm =
     dict_set c (dict_set p b (case dict_get pm c of None \<Rightarrow> [] | Some d \<Rightarrow> d)) pm"

definition is_component_node :: "'a graph_energy_hub \<Rightarrow> string \<Rightarrow> bool" where
  \<comment> \<open>\<^verbatim>\<open>self.graph.nodes[n]['type'] == 'component'\<close>\<close>
  "is_component_node g n = (dict_get (g_nodes g) n = Some ComponentNode)"

definition is_io_node :: "'a graph_energy_hub \<Rightarrow> string \<Rightarrow> string \<Rightarrow> bool" where
  \<comment> \<open>\<^verbatim>\<open>self.graph.nodes[n]['type'] == 'io' and self.graph.nodes[n]['io_type'] == t\<close>\<close>
  "is_io_node g n t = (dict_get (g_nodes g) n = Some (IoNode t))"

definition edge_step ::
  "'a graph_energy_hub \<Rightarrow> string \<times> string \<times> edge_data \<Rightarrow> 'a config \<Rightarrow> 'a config" where
  \<comment> \<open>the body of the loop over the edges\<close>
  "edge_step g e cfg =
     (case e of (u, v, edge_data) \<Rightarrow>
        let cfg1 = cfg\<lparr>cfg_branches := cfg_branches cfg @ [branch_name edge_data]\<rparr>;
            cfg2 = (if is_component_node g u
                    then cfg1\<lparr>cfg_port_mappings :=
                           pm_set u (from_port edge_data) (branch_name edge_data) (cfg_port_mappings cfg1)\<rparr>
                    else cfg1);
            cfg3 = (if is_component_node g v
                    then cfg2\<lparr>cfg_port_mappings :=
                           pm_set v (to_port edge_data) (branch_name edge_data) (cfg_port_mappings cfg2)\<rparr>
                    else cfg2);
            cfg4 = (if is_io_node g u ''input''
                    then cfg3\<lparr>cfg_hub_inputs := cfg_hub_inputs cfg3 @ [branch_name edge_data]\<rparr>
                    else cfg3)
        in (if is_io_node g v ''output''
            then cfg4\<lparr>cfg_hub_outputs := cfg_hub_outputs cfg4 @ [branch_name edge_data]\<rparr>
            else cfg4))"

definition virtual_branch_name :: "string \<Rightarrow> string" where
  \<comment> \<open>\<^verbatim>\<open>f"{comp_name}_{virtual_port_name}_branch"\<close> for the port \<^verbatim>\<open>delta_soc\<close>\<close>
  "virtual_branch_name comp_name = comp_name @ ''_'' @ ''delta_soc'' @ ''_branch''"

definition storage_step :: "string \<times> 'a component \<Rightarrow> 'a config \<Rightarrow> 'a config" where
  \<comment> \<open>the body of the loop over the components that handles virtual ports\<close>
  "storage_step ci cfg =
     (case ci of (comp_name, comp_instance) \<Rightarrow>
        if isinstance_Storage comp_instance
        then cfg\<lparr>cfg_branches := cfg_branches cfg @ [virtual_branch_name comp_name],
                 cfg_port_mappings :=
                   pm_set comp_name ''delta_soc'' (virtual_branch_name comp_name) (cfg_port_mappings cfg)\<rparr>
        else cfg)"

definition config_components ::
  "'a graph_energy_hub \<Rightarrow> (string \<times> string \<times> 'a init_args) list" where
  \<comment> \<open>step 1: name, class name and original keyword arguments of every component;
      \<^verbatim>\<open>add_component\<close> stores the arguments of every instance it stores\<close>
  "config_components g =
     concat (map (\<lambda>(comp_name, comp_instance).
                    case dict_get (component_init_args g) comp_name of
                      Some params \<Rightarrow> [(comp_name, class_name comp_instance, params)]
                    | None \<Rightarrow> [])
                 (component_instances g))"

definition raw_config :: "'a graph_energy_hub \<Rightarrow> 'a config" where
  \<comment> \<open>the configuration before its three lists are made unique and sorted\<close>
  "raw_config g =
     fold storage_step (component_instances g)
       (fold (edge_step g) (graph_edges g)
          \<lparr>cfg_components = config_components g, cfg_branches = [], cfg_port_mappings = [],
           cfg_hub_inputs = [], cfg_hub_outputs = []\<rparr>)"

text \<open>
  \<^verbatim>\<open>sorted(list(set(xs)))\<close>: the order in which a set of strings is enumerated is not
  fixed (it changes with the hash seed of the interpreter), so \<^verbatim>\<open>list(set(xs))\<close> is a
  parameter \<open>set_list\<close> of the compilation. What a run can use is an enumeration: it
  lists the elements of \<open>xs\<close>, each once.
\<close>

definition enumeration :: "(string list \<Rightarrow> string list) \<Rightarrow> bool" where
  "enumeration set_list = (\<forall>xs. distinct (set_list xs) \<and> set (set_list xs) = set xs)"

definition compile_config :: "(string list \<Rightarrow> string list) \<Rightarrow> 'a graph_energy_hub \<Rightarrow> 'a config" where
  "compile_config set_list g =
     (let cfg = raw_config g
      in cfg\<lparr>cfg_branches := sort (set_list (cfg_branches cfg)),
             cfg_hub_inputs := sort (set_list (cfg_hub_inputs cfg)),
             cfg_hub_outputs := sort (set_list (cfg_hub_outputs cfg))\<rparr>)"

definition build ::
  "(string list \<Rightarrow> string list) \<Rightarrow> ('a::field) graph_energy_hub \<Rightarrow> error + 'a energy_hub" where
  "build set_list g =
     (case load_config (compile_config set_list g) (new_energy_hub (g_name g)) of
        Inl e \<Rightarrow> Inl e
      | Inr hub \<Rightarrow> build_system_matrices hub)"

section \<open>Client programs\<close>

text \<open>
  A topology is built by a sequence of calls of the three operations of the graph on a
  new \<^verbatim>\<open>GraphEnergyHub\<close>; the sequence stops at the first call that raises.
\<close>

datatype 'a api_call =
    AddComponent string string "'a init_args"
  | AddIoNode string string
  | Connect string string string string

fun apply_call :: "'a api_call \<Rightarrow> 'a graph_energy_hub \<Rightarrow> error + 'a graph_energy_hub" where
  "apply_call (AddComponent n ty params) g = add_component n ty params g"
| "apply_call (AddIoNode n io_type) g = add_io_node n io_type g"
| "apply_call (Connect fn fp tn tp) g = connect fn fp tn tp g"

fun run_calls :: "'a api_call list \<Rightarrow> 'a graph_energy_hub \<Rightarrow> error + 'a graph_energy_hub" where
  "run_calls [] g = Inr g"
| "run_calls (c # cs) g = (case apply_call c g of Inl e \<Rightarrow> Inl e | Inr g' \<Rightarrow> run_calls cs g')"

text \<open>
  The calls of \<^verbatim>\<open>examples/01_build_with_graph.py\<close>: a back-pressure cogeneration unit and
  a boiler fed from one gas input, both feeding one heat output, the cogeneration unit
  alone feeding the electrical output. The efficiencies 0.8, 0.3 and 0.9 are the
  rationals 8/10, 3/10 and 9/10.
\<close>

definition two_converter_calls :: "rat api_call list" where
  "two_converter_calls =
     [AddComponent ''CHP1'' ''CHPBackPressure'' (ChpArgs (8 / 10) (3 / 10) []),
      AddComponent ''Boiler1'' ''Boiler'' (EtaArgs (9 / 10)),
      AddIoNode ''GasInput'' ''input'',
      AddIoNode ''HeatLoad'' ''output'',
      AddIoNode ''ElecLoad'' ''output'',
      Connect ''GasInput'' ''out'' ''CHP1'' ''fuel_in'',
      Connect ''CHP1'' ''heat_out'' ''HeatLoad'' ''in'',
      Connect ''CHP1'' ''elec_out'' ''ElecLoad'' ''in'',
      Connect ''GasInput'' ''out'' ''Boiler1'' ''fuel_in'',
      Connect ''Boiler1'' ''heat_out'' ''HeatLoad'' ''in'']"

definition two_converter_branches :: "string list" where
  "two_converter_branches =
     [''Boiler1_heat_out_to_HeatLoad_in'', ''CHP1_elec_out_to_ElecLoad_in'',
      ''CHP1_heat_out_to_HeatLoad_in'', ''GasInput_out_to_Boiler1_fuel_in'',
      ''GasInput_out_to_CHP1_fuel_in'']"

definition two_converter_graph :: "rat graph_energy_hub" where
  \<comment> \<open>the graph the calls of the scenario build\<close>
  "two_converter_graph =
     \<lparr>g_name = ''MyGraphHub'',
      g_nodes = [(''CHP1'', ComponentNode), (''Boiler1'', ComponentNode),
                 (''GasInput'', IoNode ''input''), (''HeatLoad'', IoNode ''output''),
                 (''ElecLoad'', IoNode ''output'')],
      g_succ =
        [(''CHP1'',
          [(''HeatLoad'', \<lparr>from_port = ''heat_out'', to_port = ''in'',
                            branch_name = ''CHP1_heat_out_to_HeatLoad_in''\<rparr>),
           (''ElecLoad'', \<lparr>from_port = ''elec_out'', to_port = ''in'',
                            branch_name = ''CHP1_elec_out_to_ElecLoad_in''\<rparr>)]),
         (''Boiler1'',
          [(''HeatLoad'', \<lparr>from_port = ''heat_out'', to_port = ''in'',
                            branch_name = ''Boiler1_heat_out_to_HeatLoad_in''\<rparr>)]),
         (''GasInput'',
          [(''CHP1'', \<lparr>from_port = ''out'', to_port = ''fuel_in'',
                        branch_name = ''GasInput_out_to_CHP1_fuel_in''\<rparr>),
           (''Boiler1'', \<lparr>from_port = ''out'', to_port = ''fuel_in'',
                           branch_name = ''GasInput_out_to_Boiler1_fuel_in''\<rparr>)]),
         (''HeatLoad'', []), (''ElecLoad'', [])],
      component_instances =
        [(''CHP1'', CHPBackPressure ''CHP1'' (8 / 10) (3 / 10) [''elec_out'']),
         (''Boiler1'', Boiler ''Boiler1'' (9 / 10))],
      component_init_args =
        [(''CHP1'', ChpArgs (8 / 10) (3 / 10) []), (''Boiler1'', EtaArgs (9 / 10))],
      io_nodes = [(''GasInput'', ''input''), (''HeatLoad'', ''output''), (''ElecLoad'', ''output'')]\<rparr>"

text \<open>
  Two connections between the same two nodes through different ports: a cogeneration
  unit with the electrical ports \<^verbatim>\<open>e1\<close> and \<^verbatim>\<open>e2\<close>, both connected to one
  electrical output.
\<close>

definition parallel_calls :: "rat api_call list" where
  "parallel_calls =
     [AddComponent ''CHP1'' ''CHPBackPressure'' (ChpArgs (8 / 10) (3 / 10) [''e1'', ''e2'']),
      AddIoNode ''GasInput'' ''input'',
      AddIoNode ''HeatLoad'' ''output'',
      AddIoNode ''ElecLoad'' ''output'',
      Connect ''GasInput'' ''out'' ''CHP1'' ''fuel_in'',
      Connect ''CHP1'' ''heat_out'' ''HeatLoad'' ''in'',
      Connect ''CHP1'' ''e1'' ''ElecLoad'' ''in'',
      Connect ''CHP1'' ''e2'' ''ElecLoad'' ''in'']"

section \<open>Invariants used in the properties\<close>

definition well_shaped :: "'a matrix \<Rightarrow> bool" where
  \<comment> \<open>the entries fill the declared shape\<close>
  "well_shaped M = (length (elems M) = rows M \<and> list_all (\<lambda>r. length r = cols M) (elems M))"

definition balance_rows :: "(string \<times> ('a::field) component) list \<Rightarrow> nat" where
  \<comment> \<open>the total number of balance equations of the components\<close>
  "balance_rows cs = sum_list (map (\<lambda>(n, c). rows (get_characteristic_matrix c)) cs)"

definition Q_of :: "'a matrix \<Rightarrow> 'a matrix \<Rightarrow> 'a matrix" where
  \<comment> \<open>\<open>X\<close> stacked above \<open>Z\<close>, entry by entry\<close>
  "Q_of X Z = \<lparr>rows = rows X + rows Z, cols = cols X, elems = elems X @ elems Z\<rparr>"

definition R_of :: "nat \<Rightarrow> nat \<Rightarrow> ('a::{zero,one,uminus}) matrix" where
  \<comment> \<open>the negative identity of size \<open>m\<close> above \<open>k\<close> rows of zeros, entry by entry\<close>
  "R_of m k = \<lparr>rows = m + k, cols = m,
     elems = map (\<lambda>i. map (\<lambda>j. if i < m \<and> i = j then - 1 else 0) [0..<m]) [0..<m + k]\<rparr>"

definition is_inverse :: "('a::field) matrix \<Rightarrow> 'a matrix \<Rightarrow> bool" where
  \<comment> \<open>\<open>Qi\<close> is a two-sided inverse of the square matrix \<open>Q\<close>\<close>
  "is_inverse Q Qi =
     (well_shaped Qi \<and> mat_mul Q Qi = Inr (eye (rows Q)) \<and> mat_mul Qi Q = Inr (eye (rows Q)))"

definition exact_inversion :: "(('a::field) matrix \<Rightarrow> 'a matrix option) \<Rightarrow> 'a matrix \<Rightarrow> bool" where
  \<comment> \<open>what the library's exact inversion does on \<open>Q\<close>: it returns an inverse of \<open>Q\<close>, and
      raises exactly when \<open>Q\<close> has none\<close>
  "exact_inversion minv Q =
     (case minv Q of Some Qi \<Rightarrow> is_inverse Q Qi | None \<Rightarrow> \<not> (\<exists>Qi. is_inverse Q Qi))"

text \<open>
  Hubs configured by hand, as \<^verbatim>\<open>tests/test_matrix_builder.py\<close> does: the hub of the
  numeric test (one cogeneration unit, three branches), and a hub with one storage unit
  between an input and an output branch, with its virtual branch.
\<close>

definition test_chp_hub :: "rat energy_hub" where
  "test_chp_hub =
     (new_energy_hub ''TestHub_CHP_Numeric'')
       \<lparr>components := [(''CHP1'', CHPBackPressure ''CHP1'' (8 / 10) (3 / 10) [''elec_out''])],
        global_branches := [''gas_in'', ''heat_out'', ''elec_out''],
        port_to_global_branch_map :=
          [((''CHP1'', ''fuel_in''), 0), ((''CHP1'', ''heat_out''), 1), ((''CHP1'', ''elec_out''), 2)],
        hub_input_branch_indices := [0],
        hub_output_branch_indices := [1, 2]\<rparr>"

definition storage_hub :: "rat energy_hub" where
  "storage_hub =
     (new_energy_hub ''StorageHub'')
       \<lparr>components := [(''S1'', Storage ''S1'' (95 / 100) (9 / 10))],
        global_branches := [''b_in'', ''b_out'', ''b_soc''],
        port_to_global_branch_map :=
          [((''S1'', ''energy_in''), 0), ((''S1'', ''energy_out''), 1), ((''S1'', ''delta_soc''), 2)],
        hub_input_branch_indices := [0],
        hub_output_branch_indices := [1]\<rparr>"

definition degenerate_hub :: "rat energy_hub" where
  \<comment> \<open>no component, two branches, and the first branch listed twice as a hub input\<close>
  "degenerate_hub =
     (new_energy_hub ''DegenerateHub'')
       \<lparr>global_branches := [''b0'', ''b1''],
        hub_input_branch_indices := [0, 0],
        hub_output_branch_indices := [1]\<rparr>"

definition test_chp_Q_inv :: "rat matrix" where
  \<comment> \<open>the inverse of the matrix \<open>Q\<close> of \<open>test_chp_hub\<close>\<close>
  "test_chp_Q_inv = \<lparr>rows = 3, cols = 3,
     elems = [[1, 0, 0], [- (8 / 10), 1, 0], [- (3 / 10), 0, 1]]\<rparr>"

definition bound_ports :: "'a energy_hub \<Rightarrow> string \<Rightarrow> (string \<times> nat) list \<Rightarrow> bool" where
  \<comment> \<open>every port of the registry is bound to a branch of the hub\<close>
  "bound_ports hub comp_name ports =
     list_all (\<lambda>(p, i). case dict_get (port_to_global_branch_map hub) (comp_name, p) of
                            None \<Rightarrow> False
                          | Some b \<Rightarrow> b < length (global_branches hub)) ports"

definition test_chp :: "rat component" where
  \<comment> \<open>the component of \<open>test_chp_hub\<close>\<close>
  "test_chp = CHPBackPressure ''CHP1'' (8 / 10) (3 / 10) [''elec_out'']"

definition valid_bindings :: "'a energy_hub \<Rightarrow> bool" where
  \<comment> \<open>every recorded binding points to a branch of the hub\<close>
  "valid_bindings hub =
     list_all (\<lambda>(k, b). b < length (global_branches hub)) (port_to_global_branch_map hub)"

definition unconfigured_hub :: "rat energy_hub" where
  \<comment> \<open>a new hub to which a boiler was added, without branches or bindings\<close>
  "unconfigured_hub =
     (new_energy_hub ''FreshHub'')\<lparr>components := [(''Boiler1'', Boiler ''Boiler1'' (9 / 10))]\<rparr>"

definition half_bound_hub :: "rat energy_hub" where
  \<comment> \<open>the boiler's input port is bound, its output port is not\<close>
  "half_bound_hub =
     (new_energy_hub ''HalfBoundHub'')
       \<lparr>components := [(''Boiler1'', Boiler ''Boiler1'' (9 / 10))],
        global_branches := [''b_gas'', ''b_heat''],
        port_to_global_branch_map := [((''Boiler1'', ''fuel_in''), 0)],
        hub_input_branch_indices := [0],
        hub_output_branch_indices := [1]\<rparr>"

definition binding_error_in ::
  "(string \<times> string, nat) dict \<Rightarrow> (string \<times> 'a component) list \<Rightarrow> error \<Rightarrow> bool" where
  \<comment> \<open>\<open>e\<close> is the error of the assembler for a declared port of one of the components
      that has no binding\<close>
  "binding_error_in pm cs e =
     (\<exists>cn c p. (cn, c) \<in> set cs \<and> dict_get pm (cn, p) = None \<and>
        ((dict_has (input_ports c) p \<and> e = InputPortNotMapped p cn) \<or>
         (dict_has (output_ports c) p \<and> e = OutputPortNotMapped p cn)))"

definition pm_lookup :: "(string, (string, string) dict) dict \<Rightarrow> string \<Rightarrow> string \<Rightarrow> string option" where
  \<comment> \<open>the branch recorded for a port in \<^verbatim>\<open>config['port_mappings']\<close>\<close>
  "pm_lookup pm c p = (case dict_get pm c of None \<Rightarrow> None | Some d \<Rightarrow> dict_get d p)"

definition touches :: "string \<Rightarrow> string \<Rightarrow> string \<times> string \<times> edge_data \<Rightarrow> bool" where
  \<comment> \<open>the edge leaves the port \<open>p\<close> of the node \<open>c\<close> or enters it\<close>
  "touches c p e = (case e of (u, v, d) \<Rightarrow> (u = c \<and> from_port d = p) \<or> (v = c \<and> to_port d = p))"

definition edge_branch :: "string \<times> string \<times> edge_data \<Rightarrow> string" where
  "edge_branch e = (case e of (u, v, d) \<Rightarrow> branch_name d)"

definition edge_branches :: "'a graph_energy_hub \<Rightarrow> string list" where
  \<comment> \<open>the branch names of the edges, in the order of enumeration\<close>
  "edge_branches g = map edge_branch (graph_edges g)"

definition virtual_branches :: "'a graph_energy_hub \<Rightarrow> string list" where
  \<comment> \<open>the virtual branch names of the storage units, in the order of registration\<close>
  "virtual_branches g =
     map (\<lambda>(cn, c). virtual_branch_name cn) (filter (\<lambda>(cn, c). isinstance_Storage c) (component_instances g))"

definition wf_graph :: "'a graph_energy_hub \<Rightarrow> bool" where
  \<comment> \<open>what the three operations keep true of a graph: the component nodes are the keys
      of the registry of instances, and every instance is what its class makes of its
      stored keyword arguments\<close>
  "wf_graph g =
     (distinct (map fst (component_instances g)) \<and>
      (\<forall>(cn, c) \<in> set (component_instances g).
          is_component_node g cn \<and>
          (\<exists>args. dict_get (component_init_args g) cn = Some args \<and>
                  instantiate (class_name c) cn args = Inr c)) \<and>
      (\<forall>n. is_component_node g n \<longrightarrow> dict_has (component_instances g) n))"

definition pm_ok :: "string set \<Rightarrow> string set \<Rightarrow> (string, (string, string) dict) dict \<Rightarrow> bool" where
  \<comment> \<open>the port mappings are a dictionary of dictionaries, over the components \<open>K\<close> and
      the branch names \<open>S\<close>\<close>
  "pm_ok K S pm =
     (distinct (map fst pm) \<and>
      (\<forall>(c, d) \<in> set pm. distinct (map fst d) \<and> c \<in> K \<and> snd ` set d \<subseteq> S))"

definition covered :: "'a graph_energy_hub \<Rightarrow> bool" where
  \<comment> \<open>every declared port of every component is an endpoint of some edge, or is the
      virtual port of a storage unit\<close>
  "covered g =
     (\<forall>(cn, c) \<in> set (component_instances g).
        \<forall>(p, i) \<in> set (input_ports c) \<union> set (output_ports c).
          (p = ''delta_soc'' \<and> isinstance_Storage c) \<or>
          filter (touches cn p) (graph_edges g) \<noteq> [])"

text \<open>
  A storage unit between a gas input and a load, as in
  \<^verbatim>\<open>examples/03_optimization_with_storage.py\<close>, without an edge to its virtual port.
\<close>

definition storage_calls :: "rat api_call list" where
  "storage_calls =
     [AddComponent ''Storage1'' ''Storage'' (StorageArgs (95 / 100) (9 / 10)),
      AddIoNode ''GasInput'' ''input'',
      AddIoNode ''ElecLoad'' ''output'',
      Connect ''GasInput'' ''out'' ''Storage1'' ''energy_in'',
      Connect ''Storage1'' ''energy_out'' ''ElecLoad'' ''in'']"

definition storage_graph :: "rat graph_energy_hub" where
  "storage_graph =
     \<lparr>g_name = ''StorageGraph'',
      g_nodes = [(''Storage1'', ComponentNode), (''GasInput'', IoNode ''input''),
                 (''ElecLoad'', IoNode ''output'')],
      g_succ =
        [(''Storage1'',
          [(''ElecLoad'', \<lparr>from_port = ''energy_out'', to_port = ''in'',
                            branch_name = ''Storage1_energy_out_to_ElecLoad_in''\<rparr>)]),
         (''GasInput'',
          [(''Storage1'', \<lparr>from_port = ''out'', to_port = ''energy_in'',
                            branch_name = ''GasInput_out_to_Storage1_energy_in''\<rparr>)]),
         (''ElecLoad'', [])],
      component_instances = [(''Storage1'', Storage ''Storage1'' (95 / 100) (9 / 10))],
      component_init_args = [(''Storage1'', StorageArgs (95 / 100) (9 / 10))],
      io_nodes = [(''GasInput'', ''input''), (''ElecLoad'', ''output'')]\<rparr>"

text \<open>
  A graph in which the name of an edge's branch is also the name of a virtual branch:
  the storage unit is called \<^verbatim>\<open>G_x_to_L\<close>, and an edge leaves the port \<^verbatim>\<open>x\<close> of the
  input node \<^verbatim>\<open>G\<close> for the port \<^verbatim>\<open>delta_soc_branch\<close> of the output node \<^verbatim>\<open>L\<close>
  (the port names of boundary nodes are free).
\<close>

definition collision_calls :: "rat api_call list" where
  "collision_calls =
     [AddIoNode ''G'' ''input'',
      AddIoNode ''L'' ''output'',
      AddComponent ''G_x_to_L'' ''Storage'' (StorageArgs (95 / 100) (9 / 10)),
      Connect ''G'' ''out'' ''G_x_to_L'' ''energy_in'',
      Connect ''G_x_to_L'' ''energy_out'' ''L'' ''in'',
      Connect ''G'' ''x'' ''L'' ''delta_soc_branch'']"

definition collision_graph :: "rat graph_energy_hub" where
  "collision_graph =
     \<lparr>g_name = ''CollisionGraph'',
      g_nodes = [(''G'', IoNode ''input''), (''L'', IoNode ''output''),
                 (''G_x_to_L'', ComponentNode)],
      g_succ =
        [(''G'',
          [(''G_x_to_L'', \<lparr>from_port = ''out'', to_port = ''energy_in'',
                            branch_name = ''G_out_to_G_x_to_L_energy_in''\<rparr>),
           (''L'', \<lparr>from_port = ''x'', to_port = ''delta_soc_branch'',
                     branch_name = ''G_x_to_L_delta_soc_branch''\<rparr>)]),
         (''L'', []),
         (''G_x_to_L'',
          [(''L'', \<lparr>from_port = ''energy_out'', to_port = ''in'',
                     branch_name = ''G_x_to_L_energy_out_to_L_in''\<rparr>)])],
      component_instances = [(''G_x_to_L'', Storage ''G_x_to_L'' (95 / 100) (9 / 10))],
      component_init_args = [(''G_x_to_L'', StorageArgs (95 / 100) (9 / 10))],
      io_nodes = [(''G'', ''input''), (''L'', ''output'')]\<rparr>"

text \<open>
  A fan-out: the heat port of a combined heat and power unit feeds two loads.
\<close>

definition fan_out_calls :: "rat api_call list" where
  "fan_out_calls =
     [AddComponent ''CHP1'' ''CHPBackPressure'' (ChpArgs (8 / 10) (3 / 10) []),
      AddIoNode ''GasInput'' ''input'',
      AddIoNode ''HeatLoad1'' ''output'',
      AddIoNode ''HeatLoad2'' ''output'',
      AddIoNode ''ElecLoad'' ''output'',
      Connect ''GasInput'' ''out'' ''CHP1'' ''fuel_in'',
      Connect ''CHP1'' ''heat_out'' ''HeatLoad1'' ''in'',
      Connect ''CHP1'' ''heat_out'' ''HeatLoad2'' ''in'',
      Connect ''CHP1'' ''elec_out'' ''ElecLoad'' ''in'']"

definition fan_out_graph :: "rat graph_energy_hub" where
  "fan_out_graph =
     \<lparr>g_name = ''FanOut'',
      g_nodes = [(''CHP1'', ComponentNode), (''GasInput'', IoNode ''input''),
                 (''HeatLoad1'', IoNode ''output''), (''HeatLoad2'', IoNode ''output''),
                 (''ElecLoad'', IoNode ''output'')],
      g_succ =
        [(''CHP1'',
          [(''HeatLoad1'', \<lparr>from_port = ''heat_out'', to_port = ''in'',
                             branch_name = ''CHP1_heat_out_to_HeatLoad1_in''\<rparr>),
           (''HeatLoad2'', \<lparr>from_port = ''heat_out'', to_port = ''in'',
                             branch_name = ''CHP1_heat_out_to_HeatLoad2_in''\<rparr>),
           (''ElecLoad'', \<lparr>from_port = ''elec_out'', to_port = ''in'',
                            branch_name = ''CHP1_elec_out_to_ElecLoad_in''\<rparr>)]),
         (''GasInput'',
          [(''CHP1'', \<lparr>from_port = ''out'', to_port = ''fuel_in'',
                        branch_name = ''GasInput_out_to_CHP1_fuel_in''\<rparr>)]),
         (''HeatLoad1'', []), (''HeatLoad2'', []), (''ElecLoad'', [])],
      component_instances = [(''CHP1'', CHPBackPressure ''CHP1'' (8 / 10) (3 / 10) [''elec_out''])],
      component_init_args = [(''CHP1'', ChpArgs (8 / 10) (3 / 10) [])],
      io_nodes = [(''GasInput'', ''input''), (''HeatLoad1'', ''output''),
                  (''HeatLoad2'', ''output''), (''ElecLoad'', ''output'')]\<rparr>"

text \<open>
  Two edges into the virtual port of a storage unit: \<^verbatim>\<open>delta_soc\<close> is registered as an
  input port, so \<^verbatim>\<open>connect\<close> accepts it as a destination.
\<close>

definition shadow_calls :: "rat api_call list" where
  "shadow_calls =
     [AddComponent ''S1'' ''Storage'' (StorageArgs (95 / 100) (9 / 10)),
      AddIoNode ''G1'' ''input'',
      AddIoNode ''G2'' ''input'',
      AddIoNode ''G3'' ''input'',
      AddIoNode ''L'' ''output'',
      Connect ''G1'' ''out'' ''S1'' ''energy_in'',
      Connect ''S1'' ''energy_out'' ''L'' ''in'',
      Connect ''G2'' ''out'' ''S1'' ''delta_soc'',
      Connect ''G3'' ''out'' ''S1'' ''delta_soc'']"

definition shadow_graph :: "rat graph_energy_hub" where
  "shadow_graph =
     \<lparr>g_name = ''Shadow'',
      g_nodes = [(''S1'', ComponentNode), (''G1'', IoNode ''input''), (''G2'', IoNode ''input''),
                 (''G3'', IoNode ''input''), (''L'', IoNode ''output'')],
      g_succ =
        [(''S1'',
          [(''L'', \<lparr>from_port = ''energy_out'', to_port = ''in'',
                     branch_name = ''S1_energy_out_to_L_in''\<rparr>)]),
         (''G1'',
          [(''S1'', \<lparr>from_port = ''out'', to_port = ''energy_in'',
                      branch_name = ''G1_out_to_S1_energy_in''\<rparr>)]),
         (''G2'',
          [(''S1'', \<lparr>from_port = ''out'', to_port = ''delta_soc'',
                      branch_name = ''G2_out_to_S1_delta_soc''\<rparr>)]),
         (''G3'',
          [(''S1'', \<lparr>from_port = ''out'', to_port = ''delta_soc'',
                      branch_name = ''G3_out_to_S1_delta_soc''\<rparr>)]),
         (''L'', [])],
      component_instances = [(''S1'', Storage ''S1'' (95 / 100) (9 / 10))],
      component_init_args = [(''S1'', StorageArgs (95 / 100) (9 / 10))],
      io_nodes = [(''G1'', ''input''), (''G2'', ''input''), (''G3'', ''input''),
                  (''L'', ''output'')]\<rparr>"

section \<open>Properties\<close>

subsection \<open>The enumeration order of a set does not reach the result\<close>

lemma enumeration_remdups: "enumeration remdups"
  by (simp add: enumeration_def)

lemma enumeration_rev_remdups: "enumeration (\<lambda>xs. rev (remdups xs))"
  by (simp add: enumeration_def)

lemma sort_enumeration:
  assumes "enumeration set_list"
  shows "sort (set_list xs) = sort (remdups xs)"
proof -
  have d: "distinct (set_list xs)" and s: "set (set_list xs) = set xs"
    using assms by (simp_all add: enumeration_def)
  show ?thesis
  proof (rule sorted_distinct_set_unique)
    show "sorted (sort (set_list xs))" by simp
    show "distinct (sort (set_list xs))" using d by simp
    show "sorted (sort (remdups xs))" by simp
    show "distinct (sort (remdups xs))" by simp
    show "set (sort (set_list xs)) = set (sort (remdups xs))" using s by simp
  qed
qed

lemma compile_config_enumeration:
  "enumeration set_list \<Longrightarrow> compile_config set_list g = compile_config remdups g"
  by (simp add: compile_config_def sort_enumeration)

lemma build_enumeration:
  "enumeration set_list \<Longrightarrow> build set_list g = build remdups g"
  by (simp add: build_def compile_config_enumeration)

lemma sorted_compiled_branches:
  "enumeration set_list \<Longrightarrow>
   sorted (cfg_branches (compile_config set_list g)) \<and>
   distinct (cfg_branches (compile_config set_list g))"
  by (simp add: compile_config_def Let_def enumeration_def)

subsection \<open>The scenario with two converters\<close>

lemma two_converter_remdups:
  "(case run_calls two_converter_calls (new_graph_energy_hub ''MyGraphHub'') of
      Inl e \<Rightarrow> False
    | Inr g \<Rightarrow>
        (case build remdups g of
           Inl e \<Rightarrow> False
         | Inr hub \<Rightarrow>
             global_branches hub = two_converter_branches \<and>
             X_matrix hub = Some \<lparr>rows = 2, cols = 5,
               elems = [[0, 0, 0, 1, 0], [0, 0, 0, 0, 1]]\<rparr> \<and>
             Y_matrix hub = Some \<lparr>rows = 3, cols = 5,
               elems = [[1, 0, 0, 0, 0], [0, 1, 0, 0, 0], [0, 0, 1, 0, 0]]\<rparr> \<and>
             Z_matrix hub = Some \<lparr>rows = 3, cols = 5,
               elems = [[0, 0, 1, 0, 8 / 10], [0, 1, 0, 0, 3 / 10], [1, 0, 0, 9 / 10, 0]]\<rparr>))"
  by code_simp

text \<open>
  C7. The calls of the two-converter scenario succeed, and compiling the graph they
  build, with any enumeration order of the sets, gives a hub with five branches in
  lexicographic order, \<open>X = [[0,0,0,1,0],[0,0,0,0,1]]\<close>,
  \<open>Y = [[1,0,0,0,0],[0,1,0,0,0],[0,0,1,0,0]]\<close> and
  \<open>Z = [[0,0,1,0,0.8],[0,1,0,0,0.3],[1,0,0,0.9,0]]\<close>.
\<close>

theorem two_converter_scenario:
  assumes "enumeration set_list"
  shows "\<exists>g hub.
     run_calls two_converter_calls (new_graph_energy_hub ''MyGraphHub'') = Inr g \<and>
     build set_list g = Inr hub \<and>
     global_branches hub = two_converter_branches \<and>
     length (global_branches hub) = 5 \<and>
     X_matrix hub = Some \<lparr>rows = 2, cols = 5,
       elems = [[0, 0, 0, 1, 0], [0, 0, 0, 0, 1]]\<rparr> \<and>
     Y_matrix hub = Some \<lparr>rows = 3, cols = 5,
       elems = [[1, 0, 0, 0, 0], [0, 1, 0, 0, 0], [0, 0, 1, 0, 0]]\<rparr> \<and>
     Z_matrix hub = Some \<lparr>rows = 3, cols = 5,
       elems = [[0, 0, 1, 0, 8 / 10], [0, 1, 0, 0, 3 / 10], [1, 0, 0, 9 / 10, 0]]\<rparr>"
proof -
  have len: "length two_converter_branches = 5"
    by (simp add: two_converter_branches_def)
  show ?thesis
    using two_converter_remdups len
    by (simp add: build_enumeration [OF assms] split: sum.splits)
qed

theorem two_converter_scenario_witness:
  "enumeration remdups \<and>
   (\<exists>g hub.
     run_calls two_converter_calls (new_graph_energy_hub ''MyGraphHub'') = Inr g \<and>
     build remdups g = Inr hub \<and>
     global_branches hub = two_converter_branches \<and>
     length (global_branches hub) = 5 \<and>
     X_matrix hub = Some \<lparr>rows = 2, cols = 5,
       elems = [[0, 0, 0, 1, 0], [0, 0, 0, 0, 1]]\<rparr> \<and>
     Y_matrix hub = Some \<lparr>rows = 3, cols = 5,
       elems = [[1, 0, 0, 0, 0], [0, 1, 0, 0, 0], [0, 0, 1, 0, 0]]\<rparr> \<and>
     Z_matrix hub = Some \<lparr>rows = 3, cols = 5,
       elems = [[0, 0, 1, 0, 8 / 10], [0, 1, 0, 0, 3 / 10], [1, 0, 0, 9 / 10, 0]]\<rparr>)"
  using two_converter_scenario [OF enumeration_remdups] enumeration_remdups by simp

subsection \<open>Determinism\<close>

lemma two_converter_graph_built:
  "run_calls two_converter_calls (new_graph_energy_hub ''MyGraphHub'') = Inr two_converter_graph"
  by code_simp

lemma load_components_fields:
  "load_components cs hub = Inr hub' \<Longrightarrow>
   global_branches hub' = global_branches hub \<and>
   port_to_global_branch_map hub' = port_to_global_branch_map hub \<and>
   hub_input_branch_indices hub' = hub_input_branch_indices hub \<and>
   hub_output_branch_indices hub' = hub_output_branch_indices hub \<and>
   X_matrix hub' = X_matrix hub \<and> Y_matrix hub' = Y_matrix hub \<and> Z_matrix hub' = Z_matrix hub \<and>
   hub_name hub' = hub_name hub"
proof (induction cs hub rule: load_components.induct)
  case (1 hub)
  then show ?case by simp
next
  case (2 comp_name comp_type_str comp_params rest hub)
  then show ?case
    by (auto simp: hub_add_component_def split: if_splits sum.splits)
qed

lemma load_config_branches:
  "load_config cfg hub = Inr hub' \<Longrightarrow> global_branches hub' = cfg_branches cfg"
  by (auto simp: load_config_def Let_def split: sum.splits if_splits)

lemma build_Ag_global_matrices:
  "build_Ag_global (set_system_matrices X Y Z hub) cn c = build_Ag_global hub cn c"
  by (simp add: build_Ag_global_def set_system_matrices_def cong: sum.case_cong)

lemma build_Z_blocks_matrices:
  "build_Z_blocks (set_system_matrices X Y Z hub) cs = build_Z_blocks hub cs"
  by (induction cs) (auto simp: build_Ag_global_matrices cong: sum.case_cong)

lemma system_matrices_matrices:
  "system_matrices (set_system_matrices X Y Z hub) = system_matrices hub"
  proof -
  have "components (set_system_matrices X Y Z hub) = components hub"
    "global_branches (set_system_matrices X Y Z hub) = global_branches hub"
    "hub_input_branch_indices (set_system_matrices X Y Z hub) = hub_input_branch_indices hub"
    "hub_output_branch_indices (set_system_matrices X Y Z hub) = hub_output_branch_indices hub"
    by (simp_all add: set_system_matrices_def)
  then show ?thesis
    by (simp add: system_matrices_def Let_def build_Z_blocks_matrices cong: sum.case_cong if_cong)
qed

lemma build_system_matrices_again:
  "build_system_matrices hub = Inr hub' \<Longrightarrow> build_system_matrices hub' = Inr hub'"
proof -
  assume a: "build_system_matrices hub = Inr hub'"
  then obtain X Y Z where m: "system_matrices hub = Inr (X, Y, Z)"
    and h: "hub' = set_system_matrices X Y Z hub"
    by (auto simp: build_system_matrices_def split: sum.splits prod.splits)
  have "system_matrices hub' = Inr (X, Y, Z)"
    by (simp add: h system_matrices_matrices m)
  then show ?thesis
    by (simp add: build_system_matrices_def h set_system_matrices_def)
qed

lemma build_system_matrices_fields:
  "build_system_matrices hub = Inr hub' \<Longrightarrow>
   global_branches hub' = global_branches hub \<and>
   components hub' = components hub \<and>
   port_to_global_branch_map hub' = port_to_global_branch_map hub \<and>
   hub_input_branch_indices hub' = hub_input_branch_indices hub \<and>
   hub_output_branch_indices hub' = hub_output_branch_indices hub"
  by (auto simp: build_system_matrices_def set_system_matrices_def split: sum.splits prod.splits)

lemma build_branches:
  "build set_list g = Inr hub \<Longrightarrow> global_branches hub = cfg_branches (compile_config set_list g)"
  by (auto simp: build_def split: sum.splits dest!: build_system_matrices_fields load_config_branches)

lemma build_again:
  "build set_list g = Inr hub \<Longrightarrow> build_system_matrices hub = Inr hub"
  by (auto simp: build_def split: sum.splits dest: build_system_matrices_again)

lemma two_converter_build_succeeds:
  "\<exists>hub. build remdups two_converter_graph = Inr hub"
  using two_converter_remdups
  by (simp add: two_converter_graph_built split: sum.splits)

text \<open>
  C1. Two compilations of one graph, whatever order each run enumerates its sets in,
  give the same configuration and the same result of \<open>build\<close>: the same hub, with the
  same branch list and the same X, Y and Z, or the same error. The branch list is
  sorted lexicographically and has no duplicates, so that a name has one index. On the
  compiled hub the matrix assembly is repeatable: running it again gives the hub
  unchanged, with the same three matrices.
\<close>

theorem compilation_deterministic:
  assumes "enumeration run1" and "enumeration run2"
  shows "compile_config run1 g = compile_config run2 g \<and>
         build run1 g = build run2 g \<and>
         sorted (cfg_branches (compile_config run1 g)) \<and>
         distinct (cfg_branches (compile_config run1 g)) \<and>
         (\<forall>hub. build run1 g = Inr hub \<longrightarrow>
            global_branches hub = cfg_branches (compile_config run1 g) \<and>
            build_system_matrices hub = Inr hub)"
  using assms sorted_compiled_branches [of run1 g]
  by (simp add: compile_config_enumeration build_enumeration build_branches build_again)

theorem compilation_deterministic_witness:
  "enumeration remdups \<and> enumeration (\<lambda>xs. rev (remdups xs)) \<and>
   build remdups two_converter_graph = build (\<lambda>xs. rev (remdups xs)) two_converter_graph \<and>
   sorted (cfg_branches (compile_config remdups two_converter_graph)) \<and>
   (\<exists>hub. build remdups two_converter_graph = Inr hub \<and>
      global_branches hub = cfg_branches (compile_config remdups two_converter_graph) \<and>
      build_system_matrices hub = Inr hub)"
  using compilation_deterministic [OF enumeration_remdups enumeration_rev_remdups, of two_converter_graph]
    two_converter_build_succeeds enumeration_remdups enumeration_rev_remdups
  by auto

subsection \<open>Parallel connections\<close>

text \<open>
  C2. The graph holds one edge for an ordered pair of nodes. After the connections
  \<^verbatim>\<open>CHP1.e1 -> ElecLoad.in\<close> and \<^verbatim>\<open>CHP1.e2 -> ElecLoad.in\<close> it has a single edge from
  \<^verbatim>\<open>CHP1\<close> to \<^verbatim>\<open>ElecLoad\<close>, the second one; the compiled configuration has no branch for
  the first connection, and the compilation stops at the port \<^verbatim>\<open>e1\<close>, which has no
  binding.
\<close>

theorem parallel_connections_collapse:
  "(case run_calls parallel_calls (new_graph_energy_hub ''ParallelHub'') of
      Inl e \<Rightarrow> False
    | Inr g \<Rightarrow>
        map (\<lambda>(u, v, d). (u, from_port d, v, to_port d)) (graph_edges g) =
          [(''CHP1'', ''heat_out'', ''HeatLoad'', ''in''),
           (''CHP1'', ''e2'', ''ElecLoad'', ''in''),
           (''GasInput'', ''out'', ''CHP1'', ''fuel_in'')] \<and>
        cfg_branches (compile_config remdups g) =
          [''CHP1_e2_to_ElecLoad_in'', ''CHP1_heat_out_to_HeatLoad_in'',
           ''GasInput_out_to_CHP1_fuel_in''] \<and>
        make_branch_name ''CHP1'' ''e1'' ''ElecLoad'' ''in''
          \<notin> set (cfg_branches (compile_config remdups g)) \<and>
        build remdups g = Inl (OutputPortNotMapped ''e1'' ''CHP1''))"
  by code_simp

subsection \<open>Shapes of the assembled matrices\<close>

lemma set_entry_shape:
  "set_entry M i j v = Inr M' \<Longrightarrow> rows M' = rows M \<and> cols M' = cols M"
  by (auto simp: set_entry_def split: if_splits)

lemma place_ports_shape:
  "place_ports pm cn v err ps A = Inr A' \<Longrightarrow> rows A' = rows A \<and> cols A' = cols A"
proof (induction ps arbitrary: A)
  case Nil
  then show ?case by simp
next
  case (Cons p ps)
  obtain pn i where p: "p = (pn, i)" by (cases p)
  from Cons.prems obtain g A1 where "set_entry A i g v = Inr A1"
    and "place_ports pm cn v err ps A1 = Inr A'"
    by (auto simp: p split: option.splits sum.splits)
  then show ?case
    using Cons.IH [of A1] set_entry_shape [of A i g v A1] by simp
qed

lemma place_indicators_shape:
  "place_indicators i bs M = Inr M' \<Longrightarrow> rows M' = rows M \<and> cols M' = cols M"
proof (induction bs arbitrary: i M)
  case Nil
  then show ?case by simp
next
  case (Cons b bs)
  from Cons.prems obtain M1 where "set_entry M i b 1 = Inr M1"
    and "place_indicators (Suc i) bs M1 = Inr M'"
    by (auto split: sum.splits)
  then show ?case
    using Cons.IH [of "Suc i" M1] set_entry_shape [of M i b 1 M1] by simp
qed

lemma build_Ag_global_shape:
  assumes "build_Ag_global hub cn c = Inr A"
  shows "rows A = cols (get_characteristic_matrix c) \<and> cols A = length (global_branches hub)"
proof -
  from assms obtain A1 where
    1: "place_ports (port_to_global_branch_map hub) cn 1 InputPortNotMapped (input_ports c)
          (zeros (cols (get_characteristic_matrix c)) (length (global_branches hub))) = Inr A1"
    and 2: "place_ports (port_to_global_branch_map hub) cn (- 1) OutputPortNotMapped
          (output_ports c) A1 = Inr A"
    by (auto simp: build_Ag_global_def Let_def split: sum.splits)
  show ?thesis
    using place_ports_shape [OF 1] place_ports_shape [OF 2] by (simp add: zeros_def)
qed

lemma mat_mul_shape:
  "mat_mul A B = Inr C \<Longrightarrow> rows C = rows A \<and> cols C = cols B"
  by (auto simp: mat_mul_def split: if_splits)

lemma mat_mul_defined:
  "cols A = rows B \<Longrightarrow> \<exists>C. mat_mul A B = Inr C"
  by (simp add: mat_mul_def)

lemma build_Z_blocks_shape:
  "build_Z_blocks hub cs = Inr Zs \<Longrightarrow>
   sum_list (map rows Zs) = balance_rows cs \<and>
   list_all (\<lambda>Z. cols Z = length (global_branches hub)) Zs \<and>
   (Zs = [] \<longleftrightarrow> cs = [])"
proof (induction cs arbitrary: Zs)
  case Nil
  then show ?case by (simp add: balance_rows_def)
next
  case (Cons p cs)
  obtain cn c where p: "p = (cn, c)" by (cases p)
  from Cons.prems obtain A Zg Zs' where a: "build_Ag_global hub cn c = Inr A"
    and m: "mat_mul (get_characteristic_matrix c) A = Inr Zg"
    and r: "build_Z_blocks hub cs = Inr Zs'" and z: "Zs = Zg # Zs'"
    by (auto simp: p split: sum.splits)
  show ?case
    using Cons.IH [OF r] mat_mul_shape [OF m] build_Ag_global_shape [OF a]
    by (simp add: z p balance_rows_def)
qed

lemma vstack_from_shape:
  "list_all (\<lambda>B. cols B = cols A) Bs \<Longrightarrow>
   \<exists>M. vstack_from A Bs = Inr M \<and> rows M = rows A + sum_list (map rows Bs) \<and> cols M = cols A"
proof (induction Bs arbitrary: A)
  case Nil
  then show ?case by simp
next
  case (Cons B Bs)
  let ?AB = "\<lparr>rows = rows A + rows B, cols = cols A, elems = elems A @ elems B\<rparr>"
  have j: "col_join A B = Inr ?AB" using Cons.prems by (simp add: col_join_def)
  have "list_all (\<lambda>B. cols B = cols ?AB) Bs" using Cons.prems by simp
  from Cons.IH [OF this] show ?case by (auto simp: j)
qed

lemma vstack_shape:
  assumes "Zs \<noteq> []" and "list_all (\<lambda>Z. cols Z = n) Zs"
  shows "\<exists>M. vstack Zs = Inr M \<and> rows M = sum_list (map rows Zs) \<and> cols M = n"
proof -
  from assms obtain A As where zs: "Zs = A # As" by (cases Zs) auto
  have "list_all (\<lambda>B. cols B = cols A) As" and "cols A = n"
    using assms(2) by (auto simp: zs list_all_iff)
  from vstack_from_shape [OF this(1)] this(2) show ?thesis
    by (auto simp: vstack_def zs)
qed

lemma system_matrices_shape:
  assumes "system_matrices hub = Inr (X, Y, Z)"
  shows "0 < length (global_branches hub) \<and>
         rows X = length (hub_input_branch_indices hub) \<and> cols X = length (global_branches hub) \<and>
         rows Y = length (hub_output_branch_indices hub) \<and> cols Y = length (global_branches hub) \<and>
         rows Z = balance_rows (components hub) \<and> cols Z = length (global_branches hub)"
proof -
  let ?B = "length (global_branches hub)"
  from assms have B: "0 < ?B"
    by (auto simp: system_matrices_def Let_def split: if_splits)
  from assms B obtain Zs where zb: "build_Z_blocks hub (components hub) = Inr Zs"
    and zz: "(if Zs = [] then Inr (zeros 0 ?B) else vstack Zs) = Inr Z"
    and xx: "place_indicators 0 (hub_input_branch_indices hub)
               (zeros (length (hub_input_branch_indices hub)) ?B) = Inr X"
    and yy: "place_indicators 0 (hub_output_branch_indices hub)
               (zeros (length (hub_output_branch_indices hub)) ?B) = Inr Y"
    by (auto simp: system_matrices_def Let_def split: if_splits sum.splits)
  note s = build_Z_blocks_shape [OF zb]
  have Z: "rows Z = balance_rows (components hub) \<and> cols Z = ?B"
  proof (cases "Zs = []")
    case True
    with zz s show ?thesis by (auto simp: zeros_def balance_rows_def)
  next
    case False
    with s vstack_shape [of Zs ?B] zz show ?thesis by auto
  qed
  show ?thesis
    using B Z place_indicators_shape [OF xx] place_indicators_shape [OF yy]
    by (simp add: zeros_def)
qed

lemma assembled_hub:
  assumes "build_system_matrices hub0 = Inr hub"
  shows "\<exists>X Y Z. system_matrices hub0 = Inr (X, Y, Z) \<and>
           X_matrix hub = Some X \<and> Y_matrix hub = Some Y \<and> Z_matrix hub = Some Z"
  using assms
  by (auto simp: build_system_matrices_def set_system_matrices_def split: sum.splits prod.splits)

subsection \<open>Coupling derivation\<close>

lemma R_rows_split:
  "map f [0..<m + k] = map f [0..<m] @ map f [m..<m + k]"
proof -
  have "[0..<m + k] = [0..<m] @ [m..<m + k]"
    by (rule upt_add_eq_append) simp
  then show ?thesis by (metis map_append)
qed

lemma R_rows_bottom:
  "map (\<lambda>i. map (\<lambda>j. if i < m \<and> i = j then - 1 else (0::'a::ring_1)) [0..<m]) [m..<m + k]
     = replicate k (replicate m 0)"
proof (rule nth_equalityI)
  show "length (map (\<lambda>i. map (\<lambda>j. if i < m \<and> i = j then - 1 else (0::'a)) [0..<m]) [m..<m + k]) = length (replicate k (replicate m (0::'a)))" by simp
next
  fix i assume "i < length (map (\<lambda>i. map (\<lambda>j. if i < m \<and> i = j then - 1 else (0::'a)) [0..<m]) [m..<m + k])"
  then have i: "i < k" by simp
  have "map (\<lambda>j. if m + i < m \<and> m + i = j then - 1 else (0::'a)) [0..<m] = replicate m 0"
    by (simp add: map_replicate_const)
  then show "map (\<lambda>i. map (\<lambda>j. if i < m \<and> i = j then - 1 else (0::'a)) [0..<m]) [m..<m + k] ! i = replicate k (replicate m 0) ! i"
    using i by simp
qed
lemma vstack_Q:
  "cols X = cols Z \<Longrightarrow> vstack [X, Z] = Inr (Q_of X Z)"
  by (simp add: vstack_def col_join_def Q_of_def)

lemma R_rows_top:
  "map (\<lambda>i. map (\<lambda>j. if i < m \<and> i = j then - 1 else (0::'a::ring_1)) [0..<m]) [0..<m]
     = map (map uminus) (map (\<lambda>i. map (\<lambda>j. if i = j then 1 else 0) [0..<m]) [0..<m])"
  by (rule nth_equalityI) (simp_all add: comp_def)

lemma vstack_R:
  "vstack [mat_neg (eye m), zeros k m] = Inr (R_of m k :: ('a::ring_1) matrix)"
  by (simp add: vstack_def col_join_def R_of_def mat_neg_def eye_def zeros_def
        R_rows_split [of _ m k] R_rows_top R_rows_bottom)

lemma mat_mul_error: "mat_mul A B = Inl e \<Longrightarrow> e = ShapeError"
  by (auto simp: mat_mul_def split: if_splits)

lemma derive_unfold:
  assumes "X_matrix hub = Some X" and "Y_matrix hub = Some Y" and "Z_matrix hub = Some Z"
    and "cols X = cols Z"
  shows "derive_coupling_matrix minv hub =
     (if rows X + rows Z \<noteq> cols X then Inl (QNotSquare (rows X + rows Z) (cols X))
      else (case minv (Q_of X Z) of
              None \<Rightarrow> Inl QSingular
            | Some Q_inv \<Rightarrow>
                (case mat_mul (mat_neg Y) Q_inv of
                   Inl e \<Rightarrow> Inl e
                 | Inr YQ \<Rightarrow> mat_mul YQ (R_of (rows X) (rows Z)))))"
proof -
  have q: "rows (Q_of X Z) = rows X + rows Z" "cols (Q_of X Z) = cols X"
    by (simp_all add: Q_of_def)
  show ?thesis
    by (simp add: derive_coupling_matrix_def assms(1-3) vstack_Q [OF assms(4)] vstack_R Let_def q)
qed

lemma derive_not_square_only:
  assumes "X_matrix hub = Some X" and "Y_matrix hub = Some Y" and "Z_matrix hub = Some Z"
    and "cols X = cols Z" and "rows X + rows Z = cols X"
  shows "derive_coupling_matrix minv hub \<noteq> Inl (QNotSquare r c)"
proof
  assume a: "derive_coupling_matrix minv hub = Inl (QNotSquare r c)"
  show False
  proof (cases "minv (Q_of X Z)")
    case None
    with a show False by (simp add: derive_unfold [OF assms(1-4)] assms(5))
  next
    case (Some Qi)
    show False
    proof (cases "mat_mul (mat_neg Y) Qi")
      case (Inl e)
      with a Some mat_mul_error [OF Inl] show False
        by (simp add: derive_unfold [OF assms(1-4)] assms(5))
    next
      case (Inr YQ)
      with a Some have "mat_mul YQ (R_of (rows X) (rows Z)) = Inl (QNotSquare r c)"
        by (simp add: derive_unfold [OF assms(1-4)] assms(5))
      from mat_mul_error [OF this] show False by simp
    qed
  qed
qed

lemma storage_hub_assembles:
  "(case build_system_matrices storage_hub of Inl e \<Rightarrow> False | Inr hub \<Rightarrow> True)"
  by code_simp

lemma test_chp_hub_assembles:
  "(case build_system_matrices test_chp_hub of Inl e \<Rightarrow> False | Inr hub \<Rightarrow>
      X_matrix hub = Some \<lparr>rows = 1, cols = 3, elems = [[1, 0, 0]]\<rparr> \<and>
      Y_matrix hub = Some \<lparr>rows = 2, cols = 3, elems = [[0, 1, 0], [0, 0, 1]]\<rparr> \<and>
      Z_matrix hub = Some \<lparr>rows = 2, cols = 3, elems = [[8 / 10, 1, 0], [3 / 10, 0, 1]]\<rparr>)"
  by code_simp

lemma storage_hub_counts:
  "length (hub_input_branch_indices storage_hub) + balance_rows (components storage_hub) = 2 \<and>
   length (global_branches storage_hub) = 3"
  by code_simp

lemma test_chp_hub_counts:
  "length (hub_input_branch_indices test_chp_hub) + balance_rows (components test_chp_hub) = 3 \<and>
   length (global_branches test_chp_hub) = 3"
  by code_simp

text \<open>
  C4. On a hub whose matrices the assembler has set, with \<open>m\<close> hub-input branches,
  \<open>\<Sigma>k\<close> balance rows of its components in total and \<open>B\<close> branches, coupling
  derivation fails with the error for a matrix \<open>Q\<close> that is not square, of shape
  \<open>(m + \<Sigma>k) \<times> B\<close>, whenever \<open>m + \<Sigma>k \<noteq> B\<close>; when \<open>m + \<Sigma>k = B\<close> it never fails
  with that error, whatever the inversion does.
\<close>

theorem squareness_precondition:
  assumes "build_system_matrices hub0 = Inr hub"
  shows "(length (hub_input_branch_indices hub0) + balance_rows (components hub0)
            \<noteq> length (global_branches hub0) \<longrightarrow>
          derive_coupling_matrix minv hub =
            Inl (QNotSquare (length (hub_input_branch_indices hub0) + balance_rows (components hub0))
                   (length (global_branches hub0)))) \<and>
         (length (hub_input_branch_indices hub0) + balance_rows (components hub0)
            = length (global_branches hub0) \<longrightarrow>
          (\<forall>r c. derive_coupling_matrix minv hub \<noteq> Inl (QNotSquare r c)))"
proof -
  from assembled_hub [OF assms] obtain X Y Z where m: "system_matrices hub0 = Inr (X, Y, Z)"
    and x: "X_matrix hub = Some X" and y: "Y_matrix hub = Some Y" and z: "Z_matrix hub = Some Z"
    by blast
  note s = system_matrices_shape [OF m]
  have c: "cols X = cols Z" using s by simp
  show ?thesis
    using derive_unfold [OF x y z c, of minv] derive_not_square_only [OF x y z c, of minv] s
    by auto
qed

theorem squareness_precondition_witness:
  "(\<exists>hub. build_system_matrices storage_hub = Inr hub \<and>
      derive_coupling_matrix (\<lambda>Q. None) hub = Inl (QNotSquare 2 3)) \<and>
   (\<exists>hub. build_system_matrices test_chp_hub = Inr hub \<and>
      derive_coupling_matrix (\<lambda>Q. None) hub \<noteq> Inl (QNotSquare 3 3))"
proof -
  obtain h1 where h1: "build_system_matrices storage_hub = Inr h1"
    using storage_hub_assembles by (auto split: sum.splits)
  obtain h2 where h2: "build_system_matrices test_chp_hub = Inr h2"
    using test_chp_hub_assembles by (auto split: sum.splits)
  show ?thesis
    using squareness_precondition [OF h1, of "\<lambda>Q. None"] squareness_precondition [OF h2, of "\<lambda>Q. None"]
      storage_hub_counts test_chp_hub_counts h1 h2
    by simp
qed

subsection \<open>Matrix algebra on well-shaped matrices\<close>

lemma dot_sum:
  assumes "length u = n" and "length v = n"
  shows "dot u v = (\<Sum>k<n. u ! k * v ! k)"
proof -
  have "dot u v = (\<Sum>k = 0..<length (map2 (*) u v). map2 (*) u v ! k)"
    unfolding dot_def by (rule sum_list_sum_nth)
  also have "\<dots> = (\<Sum>k = 0..<n. u ! k * v ! k)"
    using assms by (intro sum.cong) simp_all
  finally show ?thesis by (simp add: atLeast0LessThan)
qed

lemma well_shaped_row:
  "well_shaped M \<Longrightarrow> i < rows M \<Longrightarrow> length (elems M ! i) = cols M"
  by (simp add: well_shaped_def list_all_length)

lemma column_length: "well_shaped M \<Longrightarrow> length (column M j) = rows M"
  by (simp add: column_def well_shaped_def)

lemma column_nth: "well_shaped M \<Longrightarrow> k < rows M \<Longrightarrow> column M j ! k = elems M ! k ! j"
  by (simp add: column_def well_shaped_def)

lemma matrix_eqI:
  fixes A B :: "'a matrix"
  assumes "well_shaped A" and "well_shaped B" and "rows A = rows B" and "cols A = cols B"
    and "\<And>i j. i < rows A \<Longrightarrow> j < cols A \<Longrightarrow> elems A ! i ! j = elems B ! i ! j"
  shows "A = B"
proof -
  have "elems A = elems B"
  proof (rule nth_equalityI)
    show "length (elems A) = length (elems B)"
      using assms(1-3) by (simp add: well_shaped_def)
  next
    fix i assume "i < length (elems A)"
    then have i: "i < rows A" using assms(1) by (simp add: well_shaped_def)
    show "elems A ! i = elems B ! i"
    proof (rule nth_equalityI)
      show "length (elems A ! i) = length (elems B ! i)"
        using well_shaped_row [OF assms(1) i] well_shaped_row [OF assms(2)] i assms(3,4) by simp
    next
      fix j assume "j < length (elems A ! i)"
      then have "j < cols A" using well_shaped_row [OF assms(1) i] by simp
      then show "elems A ! i ! j = elems B ! i ! j" using assms(5) i by simp
    qed
  qed
  then show ?thesis using assms(3,4) by simp
qed

lemma mat_mul_well_shaped:
  assumes "mat_mul A B = Inr C" and "well_shaped A"
  shows "well_shaped C"
  using assms by (auto simp: mat_mul_def well_shaped_def list_all_iff split: if_splits)

lemma mat_mul_entry:
  assumes "mat_mul A B = Inr C" and "well_shaped A" and "well_shaped B"
    and "i < rows A" and "j < cols B"
  shows "elems C ! i ! j = (\<Sum>k<cols A. elems A ! i ! k * elems B ! k ! j)"
proof -
  from assms(1) have c: "cols A = rows B"
    and C: "C = \<lparr>rows = rows A, cols = cols B,
                 elems = map (\<lambda>r. map (\<lambda>j. dot r (column B j)) [0..<cols B]) (elems A)\<rparr>"
    by (auto simp: mat_mul_def split: if_splits)
  have i: "i < length (elems A)" using assms(2,4) by (simp add: well_shaped_def)
  have "elems C ! i ! j = dot (elems A ! i) (column B j)"
    using i assms(5) by (simp add: C)
  also have "\<dots> = (\<Sum>k<cols A. elems A ! i ! k * column B j ! k)"
    by (rule dot_sum) (simp_all add: well_shaped_row [OF assms(2,4)] column_length [OF assms(3)] c)
  also have "\<dots> = (\<Sum>k<cols A. elems A ! i ! k * elems B ! k ! j)"
    by (intro sum.cong) (simp_all add: column_nth [OF assms(3)] c)
  finally show ?thesis .
qed

lemma eye_well_shaped: "well_shaped (eye n)"
  by (simp add: eye_def well_shaped_def list_all_iff)

lemma eye_entry: "i < n \<Longrightarrow> j < n \<Longrightarrow> elems (eye n) ! i ! j = (if i = j then 1 else 0)"
  by (simp add: eye_def)

lemma eye_shape: "rows (eye n) = n" "cols (eye n) = n"
  by (simp_all add: eye_def)

lemma mat_mul_eye_right:
  fixes A :: "('a::semiring_1) matrix"
  assumes "well_shaped A" and "cols A = n"
  shows "mat_mul A (eye n) = Inr A"
proof -
  obtain C where C: "mat_mul A (eye n) = Inr C"
    using mat_mul_defined [of A "eye n"] assms(2) by (auto simp: eye_shape)
  have "C = A"
  proof (rule matrix_eqI)
    show "well_shaped C" by (rule mat_mul_well_shaped [OF C assms(1)])
    show "well_shaped A" by (rule assms(1))
    show "rows C = rows A" "cols C = cols A"
      using mat_mul_shape [OF C] assms(2) by (simp_all add: eye_shape)
  next
    fix i j assume "i < rows C" and "j < cols C"
    then have i: "i < rows A" and j: "j < n"
      using mat_mul_shape [OF C] by (simp_all add: eye_shape)
    have "elems C ! i ! j = (\<Sum>k<n. elems A ! i ! k * elems (eye n) ! k ! j)"
      using mat_mul_entry [OF C assms(1) eye_well_shaped i] j assms(2) by (simp add: eye_shape)
    also have "\<dots> = (\<Sum>k<n. if k = j then elems A ! i ! j else 0)"
      using j by (intro sum.cong) (auto simp: eye_entry)
    also have "\<dots> = elems A ! i ! j"
      using j by (simp add: sum.delta)
    finally show "elems C ! i ! j = elems A ! i ! j" .
  qed
  then show ?thesis using C by simp
qed

lemma mat_mul_eye_left:
  fixes A :: "('a::semiring_1) matrix"
  assumes "well_shaped A" and "rows A = n"
  shows "mat_mul (eye n) A = Inr A"
proof -
  obtain C where C: "mat_mul (eye n) A = Inr C"
    using mat_mul_defined [of "eye n" A] assms(2) by (auto simp: eye_shape)
  have "C = A"
  proof (rule matrix_eqI)
    show "well_shaped C" by (rule mat_mul_well_shaped [OF C eye_well_shaped])
    show "well_shaped A" by (rule assms(1))
    show "rows C = rows A" "cols C = cols A"
      using mat_mul_shape [OF C] assms(2) by (simp_all add: eye_shape)
  next
    fix i j assume "i < rows C" and "j < cols C"
    then have i: "i < n" and j: "j < cols A"
      using mat_mul_shape [OF C] by (simp_all add: eye_shape)
    have "elems C ! i ! j = (\<Sum>k<n. elems (eye n) ! i ! k * elems A ! k ! j)"
      using mat_mul_entry [OF C eye_well_shaped assms(1) _ j] i by (simp add: eye_shape)
    also have "\<dots> = (\<Sum>k<n. if k = i then elems A ! i ! j else 0)"
      using i by (intro sum.cong) (auto simp: eye_entry)
    also have "\<dots> = elems A ! i ! j"
      using i by (simp add: sum.delta)
    finally show "elems C ! i ! j = elems A ! i ! j" .
  qed
  then show ?thesis using C by simp
qed

lemma mat_mul_assoc:
  fixes A B C :: "('a::semiring_0) matrix"
  assumes "well_shaped A" and "well_shaped B" and "well_shaped C"
    and ab: "mat_mul A B = Inr AB" and bc: "mat_mul B C = Inr BC"
  shows "mat_mul AB C = mat_mul A BC"
proof -
  have s1: "cols A = rows B" "cols B = rows C"
    using ab bc by (auto simp: mat_mul_def split: if_splits)
  note sab = mat_mul_shape [OF ab] and sbc = mat_mul_shape [OF bc]
  have wab: "well_shaped AB" by (rule mat_mul_well_shaped [OF ab assms(1)])
  have wbc: "well_shaped BC" by (rule mat_mul_well_shaped [OF bc assms(2)])
  obtain L where L: "mat_mul AB C = Inr L"
    using mat_mul_defined [of AB C] sab s1 by auto
  obtain R where R: "mat_mul A BC = Inr R"
    using mat_mul_defined [of A BC] sbc s1 by auto
  have "L = R"
  proof (rule matrix_eqI)
    show "well_shaped L" by (rule mat_mul_well_shaped [OF L wab])
    show "well_shaped R" by (rule mat_mul_well_shaped [OF R assms(1)])
    show "rows L = rows R" "cols L = cols R"
      using mat_mul_shape [OF L] mat_mul_shape [OF R] sab sbc by simp_all
  next
    fix i j assume "i < rows L" and "j < cols L"
    then have i: "i < rows A" and j: "j < cols C"
      using mat_mul_shape [OF L] sab by simp_all
    have "elems L ! i ! j = (\<Sum>l<cols B. elems AB ! i ! l * elems C ! l ! j)"
      using mat_mul_entry [OF L wab assms(3) _ j] i sab by simp
    also have "\<dots> = (\<Sum>l<cols B. (\<Sum>k<cols A. elems A ! i ! k * elems B ! k ! l) * elems C ! l ! j)"
      by (intro sum.cong) (simp_all add: mat_mul_entry [OF ab assms(1,2) i])
    also have "\<dots> = (\<Sum>l<cols B. \<Sum>k<cols A. elems A ! i ! k * (elems B ! k ! l * elems C ! l ! j))"
      by (simp add: sum_distrib_right mult.assoc)
    also have "\<dots> = (\<Sum>k<cols A. \<Sum>l<cols B. elems A ! i ! k * (elems B ! k ! l * elems C ! l ! j))"
      by (rule sum.swap)
    also have "\<dots> = (\<Sum>k<cols A. elems A ! i ! k * (\<Sum>l<cols B. elems B ! k ! l * elems C ! l ! j))"
      by (simp add: sum_distrib_left)
    also have "\<dots> = (\<Sum>k<cols A. elems A ! i ! k * elems BC ! k ! j)"
      by (intro sum.cong) (simp_all add: mat_mul_entry [OF bc assms(2,3) _ j] s1)
    also have "\<dots> = elems R ! i ! j"
      using mat_mul_entry [OF R assms(1) wbc i] j sbc by simp
    finally show "elems L ! i ! j = elems R ! i ! j" .
  qed
  then show ?thesis using L R by simp
qed

lemma inverse_unique:
  fixes Q :: "('a::field) matrix"
  assumes "well_shaped Q" and "is_inverse Q Qi" and "is_inverse Q Qi'"
  shows "Qi = Qi'"
proof -
  let ?n = "rows Q"
  from assms(2) have w: "well_shaped Qi" and a1: "mat_mul Q Qi = Inr (eye ?n)"
    and a2: "mat_mul Qi Q = Inr (eye ?n)" by (simp_all add: is_inverse_def)
  from assms(3) have w': "well_shaped Qi'" and b1: "mat_mul Q Qi' = Inr (eye ?n)"
    and b2: "mat_mul Qi' Q = Inr (eye ?n)" by (simp_all add: is_inverse_def)
  have c: "cols Qi = ?n" using mat_mul_shape [OF a1] by (simp add: eye_shape)
  have r': "rows Qi' = ?n" using mat_mul_shape [OF b2] by (simp add: eye_shape)
  have "mat_mul (eye ?n) Qi' = mat_mul Qi (eye ?n)"
    using mat_mul_assoc [OF w assms(1) w' a2 b1] .
  then show ?thesis
    by (simp add: mat_mul_eye_left [OF w' r'] mat_mul_eye_right [OF w c])
qed

lemma Q_of_well_shaped:
  "well_shaped X \<Longrightarrow> well_shaped Z \<Longrightarrow> cols X = cols Z \<Longrightarrow> well_shaped (Q_of X Z)"
  by (simp add: well_shaped_def Q_of_def)

lemma Q_of_shape: "rows (Q_of X Z) = rows X + rows Z" "cols (Q_of X Z) = cols X"
  by (simp_all add: Q_of_def)

lemma R_of_shape: "rows (R_of m k) = m + k" "cols (R_of m k) = m"
  by (simp_all add: R_of_def)

lemma mat_neg_shape: "rows (mat_neg A) = rows A" "cols (mat_neg A) = cols A"
  by (simp_all add: mat_neg_def)

lemma degenerate_hub_assembles:
  "(case build_system_matrices degenerate_hub of Inl e \<Rightarrow> False | Inr hub \<Rightarrow>
      X_matrix hub = Some \<lparr>rows = 2, cols = 2, elems = [[1, 0], [1, 0]]\<rparr> \<and>
      Y_matrix hub = Some \<lparr>rows = 1, cols = 2, elems = [[0, 1]]\<rparr> \<and>
      Z_matrix hub = Some \<lparr>rows = 0, cols = 2, elems = []\<rparr>)"
  by code_simp

lemma test_chp_Q_inverse:
  "is_inverse
     (Q_of \<lparr>rows = 1, cols = 3, elems = [[1, 0, 0]]\<rparr>
           \<lparr>rows = 2, cols = 3, elems = [[8 / 10, 1, 0], [3 / 10, 0, 1]]\<rparr>)
     test_chp_Q_inv"
  by code_simp

lemma degenerate_Q_singular:
  "\<nexists>Qi. is_inverse
     (Q_of \<lparr>rows = 2, cols = 2, elems = [[1, 0], [1, 0::rat]]\<rparr> \<lparr>rows = 0, cols = 2, elems = []\<rparr>) Qi"
proof
  assume "\<exists>Qi. is_inverse
     (Q_of \<lparr>rows = 2, cols = 2, elems = [[1, 0], [1, 0::rat]]\<rparr> \<lparr>rows = 0, cols = 2, elems = []\<rparr>) Qi"
  then obtain Qi where
    "mat_mul \<lparr>rows = 2, cols = 2, elems = [[1, 0], [1, 0::rat]]\<rparr> Qi = Inr (eye 2)"
    by (auto simp: is_inverse_def Q_of_def)
  then have "map (\<lambda>r. map (\<lambda>j. dot r (column Qi j)) [0..<cols Qi]) [[1, 0], [1, 0::rat]]
               = [[1, 0], [0, 1]]" and "cols Qi = 2"
    by (auto simp: mat_mul_def eye_def split: if_splits simp: upt_rec numeral_2_eq_2)
  then have "dot [1, 0] (column Qi 0) = (1::rat)" and "dot [1, 0] (column Qi 0) = (0::rat)"
    by (auto simp: upt_rec numeral_2_eq_2)
  then show False by simp
qed


text \<open>
  C3. On a hub whose matrices are set, with \<open>X\<close>, \<open>Y\<close> and \<open>Z\<close> over the same columns,
  coupling derivation forms \<open>Q\<close> as \<open>X\<close> above \<open>Z\<close> and \<open>R\<close> as the negative identity
  of size \<open>m\<close> above \<open>k\<close> rows of zeros (\<open>m\<close> the rows of \<open>X\<close>, \<open>k\<close> the rows of \<open>Z\<close>).
  When \<open>Q\<close> is square and has an inverse, the inverse is unique and the result is
  exactly the product \<open>(-Y) * Q\<^sup>-\<^sup>1 * R\<close>, of shape rows of \<open>Y\<close> by \<open>m\<close>; when \<open>Q\<close> is
  square and has no inverse, the derivation fails with the error for a singular \<open>Q\<close>.
  The inversion is the library's: it is assumed to return an inverse of \<open>Q\<close> when there
  is one and to raise when there is none.
\<close>

theorem coupling_derivation:
  fixes hub :: "('a::field) energy_hub"
  assumes "X_matrix hub = Some X" and "Y_matrix hub = Some Y" and "Z_matrix hub = Some Z"
    and "well_shaped X" and "well_shaped Z"
    and "cols X = cols Z" and "cols Y = cols Z"
    and "exact_inversion minv (Q_of X Z)"
  shows "vstack [X, Z] = Inr (Q_of X Z) \<and>
         vstack [mat_neg (eye (rows X)), zeros (rows Z) (rows X)]
           = Inr (R_of (rows X) (rows Z) :: 'a matrix) \<and>
         (rows (Q_of X Z) = cols (Q_of X Z) \<longrightarrow>
            (\<forall>Qi. is_inverse (Q_of X Z) Qi \<longrightarrow>
               (\<exists>YQ C. mat_mul (mat_neg Y) Qi = Inr YQ \<and>
                        mat_mul YQ (R_of (rows X) (rows Z)) = Inr C \<and>
                        derive_coupling_matrix minv hub = Inr C \<and>
                        rows C = rows Y \<and> cols C = rows X)) \<and>
            ((\<nexists>Qi. is_inverse (Q_of X Z) Qi) \<longrightarrow>
               derive_coupling_matrix minv hub = Inl QSingular))"
proof (intro conjI impI allI)
  show "vstack [X, Z] = Inr (Q_of X Z)" by (rule vstack_Q [OF assms(6)])
  show "vstack [mat_neg (eye (rows X)), zeros (rows Z) (rows X)]
          = Inr (R_of (rows X) (rows Z) :: 'a matrix)"
    by (rule vstack_R)
next
  fix Qi
  assume sq: "rows (Q_of X Z) = cols (Q_of X Z)" and inv: "is_inverse (Q_of X Z) Qi"
  have wQ: "well_shaped (Q_of X Z)" by (rule Q_of_well_shaped [OF assms(4,5,6)])
  from assms(8) inv obtain Q' where m: "minv (Q_of X Z) = Some Q'" and "is_inverse (Q_of X Z) Q'"
    by (auto simp: exact_inversion_def split: option.splits)
  then have m: "minv (Q_of X Z) = Some Qi"
    using inverse_unique [OF wQ inv] by simp
  from inv have a1: "mat_mul (Q_of X Z) Qi = Inr (eye (rows (Q_of X Z)))"
    and a2: "mat_mul Qi (Q_of X Z) = Inr (eye (rows (Q_of X Z)))"
    by (simp_all add: is_inverse_def)
  have rQi: "rows Qi = cols X" using mat_mul_shape [OF a2] sq by (simp add: eye_shape Q_of_shape)
  have cQi: "cols Qi = rows X + rows Z" using mat_mul_shape [OF a1] by (simp add: eye_shape Q_of_shape)
  obtain YQ where yq: "mat_mul (mat_neg Y) Qi = Inr YQ"
    using mat_mul_defined [of "mat_neg Y" Qi] rQi assms(6,7) by (auto simp: mat_neg_shape)
  obtain C where c: "mat_mul YQ (R_of (rows X) (rows Z)) = Inr C"
    using mat_mul_defined [of YQ "R_of (rows X) (rows Z)"] mat_mul_shape [OF yq] cQi
    by (auto simp: R_of_shape)
  have d: "derive_coupling_matrix minv hub = Inr C"
    using sq by (simp add: derive_unfold [OF assms(1,2,3,6)] m yq c Q_of_shape)
  show "\<exists>YQ C. mat_mul (mat_neg Y) Qi = Inr YQ \<and>
                mat_mul YQ (R_of (rows X) (rows Z)) = Inr C \<and>
                derive_coupling_matrix minv hub = Inr C \<and>
                rows C = rows Y \<and> cols C = rows X"
    using yq c d mat_mul_shape [OF yq] mat_mul_shape [OF c]
    by (simp add: mat_neg_shape R_of_shape)
next
  assume sq: "rows (Q_of X Z) = cols (Q_of X Z)" and no: "\<nexists>Qi. is_inverse (Q_of X Z) Qi"
  from assms(8) no have "minv (Q_of X Z) = None"
    by (auto simp: exact_inversion_def split: option.splits)
  then show "derive_coupling_matrix minv hub = Inl QSingular"
    using sq by (simp add: derive_unfold [OF assms(1,2,3,6)] Q_of_shape)
qed

theorem coupling_derivation_witness:
  "(\<exists>hub C. build_system_matrices test_chp_hub = Inr hub \<and>
      derive_coupling_matrix (\<lambda>Q. Some test_chp_Q_inv) hub = Inr C \<and>
      rows C = 2 \<and> cols C = 1) \<and>
   (\<exists>hub. build_system_matrices degenerate_hub = Inr hub \<and>
      derive_coupling_matrix (\<lambda>Q. None) hub = Inl QSingular)"
proof (intro conjI)
  let ?X = "\<lparr>rows = 1, cols = 3, elems = [[1, 0, 0::rat]]\<rparr>"
  let ?Y = "\<lparr>rows = 2, cols = 3, elems = [[0, 1, 0], [0, 0, 1::rat]]\<rparr>"
  let ?Z = "\<lparr>rows = 2, cols = 3, elems = [[8 / 10, 1, 0], [3 / 10, 0, 1::rat]]\<rparr>"
  obtain hub where h: "build_system_matrices test_chp_hub = Inr hub"
    and x: "X_matrix hub = Some ?X" and y: "Y_matrix hub = Some ?Y" and z: "Z_matrix hub = Some ?Z"
    using test_chp_hub_assembles by (auto split: sum.splits)
  have w: "well_shaped ?X" "well_shaped ?Z" by (simp_all add: well_shaped_def)
  have c: "cols ?X = cols ?Z" "cols ?Y = cols ?Z" by simp_all
  have e: "exact_inversion (\<lambda>Q. Some test_chp_Q_inv) (Q_of ?X ?Z)"
    using test_chp_Q_inverse by (simp add: exact_inversion_def)
  have sq: "rows (Q_of ?X ?Z) = cols (Q_of ?X ?Z)" by (simp add: Q_of_def)
  from coupling_derivation [OF x y z w c e] sq test_chp_Q_inverse
  obtain C where "derive_coupling_matrix (\<lambda>Q. Some test_chp_Q_inv) hub = Inr C"
    and "rows C = rows ?Y" and "cols C = rows ?X"
    by blast
  then show "\<exists>hub C. build_system_matrices test_chp_hub = Inr hub \<and>
      derive_coupling_matrix (\<lambda>Q. Some test_chp_Q_inv) hub = Inr C \<and>
      rows C = 2 \<and> cols C = 1"
    using h by auto
next
  let ?X = "\<lparr>rows = 2, cols = 2, elems = [[1, 0], [1, 0::rat]]\<rparr>"
  let ?Y = "\<lparr>rows = 1, cols = 2, elems = [[0, 1::rat]]\<rparr>"
  let ?Z = "\<lparr>rows = 0, cols = 2, elems = ([]::rat list list)\<rparr>"
  obtain hub where h: "build_system_matrices degenerate_hub = Inr hub"
    and x: "X_matrix hub = Some ?X" and y: "Y_matrix hub = Some ?Y" and z: "Z_matrix hub = Some ?Z"
    using degenerate_hub_assembles by (auto split: sum.splits)
  have w: "well_shaped ?X" "well_shaped ?Z" by (simp_all add: well_shaped_def)
  have c: "cols ?X = cols ?Z" "cols ?Y = cols ?Z" by simp_all
  have e: "exact_inversion (\<lambda>Q. None) (Q_of ?X ?Z)"
    using degenerate_Q_singular by (simp add: exact_inversion_def)
  have sq: "rows (Q_of ?X ?Z) = cols (Q_of ?X ?Z)" by (simp add: Q_of_def)
  from coupling_derivation [OF x y z w c e] sq degenerate_Q_singular
  have "derive_coupling_matrix (\<lambda>Q. None) hub = Inl QSingular"
    by blast
  then show "\<exists>hub. build_system_matrices degenerate_hub = Inr hub \<and>
      derive_coupling_matrix (\<lambda>Q. None) hub = Inl QSingular"
    using h by auto
qed

subsection \<open>The port registries\<close>

lemma update_values:
  "snd ` set (AList.update k v al) \<subseteq> insert v (snd ` set al)"
  by (induction al) auto

lemma update_distinct_values:
  "distinct (map snd al) \<Longrightarrow> v \<notin> snd ` set al \<Longrightarrow> distinct (map snd (AList.update k v al))"
proof (induction al)
  case Nil
  then show ?case by simp
next
  case (Cons a al)
  have "snd ` set (AList.update k v al) \<subseteq> insert v (snd ` set al)" by (rule update_values)
  with Cons show ?case by (auto simp: image_iff)
qed

lemma add_elec_ports_values:
  assumes "distinct (map snd d)" and "\<forall>k \<in> snd ` set d. 1 \<le> k \<and> k < 2 + i"
  shows "distinct (map snd (add_elec_ports i ps d)) \<and>
         (\<forall>k \<in> snd ` set (add_elec_ports i ps d). 1 \<le> k \<and> k < 2 + i + length ps)"
  using assms
proof (induction ps arbitrary: i d)
  case Nil
  then show ?case by simp
next
  case (Cons p ps)
  let ?d = "add_port p (2 + i) d"
  have v: "snd ` set ?d \<subseteq> insert (2 + i) (snd ` set d)"
    unfolding add_port_def dict_set_def by (rule update_values)
  have "2 + i \<notin> snd ` set d" using Cons.prems(2) by auto
  then have d: "distinct (map snd ?d)"
    unfolding add_port_def dict_set_def using Cons.prems(1) by (rule update_distinct_values [rotated])
  have b: "\<forall>k \<in> snd ` set ?d. 1 \<le> k \<and> k < 2 + Suc i"
    using v Cons.prems(2) by fastforce
  from Cons.IH [OF d b] show ?case by simp
qed

lemma port_indices:
  fixes c :: "('a::field) component"
  shows "distinct (map snd (input_ports c @ output_ports c)) \<and>
         (\<forall>k \<in> snd ` set (input_ports c @ output_ports c). k < cols (get_characteristic_matrix c))"
proof (cases c)
  case (CHPBackPressure n q w ps)
  have "distinct (map snd (add_elec_ports 0 ps [(''heat_out'', 1)])) \<and>
        (\<forall>k \<in> snd ` set (add_elec_ports 0 ps [(''heat_out'', 1)]). 1 \<le> k \<and> k < 2 + 0 + length ps)"
    by (rule add_elec_ports_values) simp_all
  then show ?thesis
    by (auto simp: CHPBackPressure add_port_def dict_set_def from_rows_def)
qed (simp_all add: add_port_def dict_set_def from_rows_def)

lemma port_index_bound:
  fixes c :: "('a::field) component"
  shows "(p, i) \<in> set (input_ports c) \<union> set (output_ports c) \<Longrightarrow> i < cols (get_characteristic_matrix c)"
  using port_indices [of c] by force

subsection \<open>The global incidence expansion\<close>

lemma zeros_well_shaped: "well_shaped (zeros m n)"
  by (simp add: zeros_def well_shaped_def list_all_iff)

lemma set_entry_well_shaped:
  "set_entry M i j v = Inr M' \<Longrightarrow> well_shaped M \<Longrightarrow> well_shaped M'"
  by (auto simp: set_entry_def well_shaped_def list_all_length nth_list_update split: if_splits)

lemma set_entry_rows:
  assumes "set_entry M i j v = Inr M'" and "well_shaped M"
  shows "elems M' ! i = (elems M ! i)[j := v]" and "r \<noteq> i \<Longrightarrow> elems M' ! r = elems M ! r"
  using assms by (auto simp: set_entry_def well_shaped_def split: if_splits)

lemma place_ports_well_shaped:
  "place_ports pm cn v err ps A = Inr A' \<Longrightarrow> well_shaped A \<Longrightarrow> well_shaped A'"
proof (induction ps arbitrary: A)
  case Nil
  then show ?case by simp
next
  case (Cons p ps)
  obtain pn i where p: "p = (pn, i)" by (cases p)
  from Cons.prems(1) obtain g A1 where s: "set_entry A i g v = Inr A1"
    and r: "place_ports pm cn v err ps A1 = Inr A'"
    by (auto simp: p split: option.splits sum.splits)
  show ?case
    by (rule Cons.IH [OF r set_entry_well_shaped [OF s Cons.prems(2)]])
qed

lemma place_ports_rows:
  assumes "place_ports pm cn v err ps A = Inr A'" and "well_shaped A" and "distinct (map snd ps)"
  shows "(\<forall>(p, i) \<in> set ps. \<forall>b. dict_get pm (cn, p) = Some b \<longrightarrow>
            elems A' ! i = (elems A ! i)[b := v]) \<and>
         (\<forall>r. r \<notin> snd ` set ps \<longrightarrow> elems A' ! r = elems A ! r)"
  using assms
proof (induction ps arbitrary: A)
  case Nil
  then show ?case by simp
next
  case (Cons q ps)
  obtain pn i where q: "q = (pn, i)" by (cases q)
  from Cons.prems(1) obtain g A1 where g: "dict_get pm (cn, pn) = Some g"
    and s: "set_entry A i g v = Inr A1"
    and r: "place_ports pm cn v err ps A1 = Inr A'"
    by (auto simp: q split: option.splits sum.splits)
  have w1: "well_shaped A1" by (rule set_entry_well_shaped [OF s Cons.prems(2)])
  have d: "distinct (map snd ps)" and i: "i \<notin> snd ` set ps"
    using Cons.prems(3) by (auto simp: q)
  note ih = Cons.IH [OF r w1 d]
  note se = set_entry_rows [OF s Cons.prems(2)]
  show ?case
  proof (intro conjI ballI allI impI)
    fix x assume x: "x \<in> set (q # ps)"
    show "case x of (p, i) \<Rightarrow> \<forall>b. dict_get pm (cn, p) = Some b \<longrightarrow>
            elems A' ! i = (elems A ! i)[b := v]"
    proof (cases "x = q")
      case True
      have "elems A' ! i = elems A1 ! i" using ih i by blast
      then show ?thesis using se(1) g by (simp add: True q)
    next
      case False
      then have xin: "x \<in> set ps" using x by simp
      obtain p' i' where x': "x = (p', i')" by (cases x)
      have "i' \<noteq> i" using xin i by (force simp: x')
      then have "elems A1 ! i' = elems A ! i'" by (rule se(2))
      then show ?thesis using ih xin by (auto simp: x')
    qed
  next
    fix r assume "r \<notin> snd ` set (q # ps)"
    then have "r \<noteq> i" and "r \<notin> snd ` set ps" by (auto simp: q)
    then show "elems A' ! r = elems A ! r" using ih se(2) by simp
  qed
qed

lemma place_ports_succeeds:
  assumes "list_all (\<lambda>(p, i). case dict_get pm (cn, p) of None \<Rightarrow> False | Some b \<Rightarrow> b < n) ps"
    and "\<forall>i \<in> snd ` set ps. i < rows A" and "cols A = n"
  shows "\<exists>A'. place_ports pm cn v err ps A = Inr A'"
  using assms
proof (induction ps arbitrary: A)
  case Nil
  then show ?case by simp
next
  case (Cons q ps)
  obtain pn i where q: "q = (pn, i)" by (cases q)
  from Cons.prems(1) obtain g where g: "dict_get pm (cn, pn) = Some g" and gb: "g < n"
    by (auto simp: q split: option.splits)
  have ib: "i < rows A" using Cons.prems(2) by (simp add: q)
  obtain A1 where s: "set_entry A i g v = Inr A1"
    using gb ib Cons.prems(3) by (simp add: set_entry_def)
  note sh = set_entry_shape [OF s]
  have "\<exists>A'. place_ports pm cn v err ps A1 = Inr A'"
  proof (rule Cons.IH)
    show "list_all (\<lambda>(p, i). case dict_get pm (cn, p) of None \<Rightarrow> False | Some b \<Rightarrow> b < n) ps"
      using Cons.prems(1) by simp
    show "\<forall>i \<in> snd ` set ps. i < rows A1" using Cons.prems(2) sh by simp
    show "cols A1 = n" using Cons.prems(3) sh by simp
  qed
  then show ?case by (simp add: q g s)
qed

lemma bound_ports_lookup:
  "bound_ports hub cn ps \<Longrightarrow> (p, i) \<in> set ps \<Longrightarrow>
   \<exists>b. dict_get (port_to_global_branch_map hub) (cn, p) = Some b \<and> b < length (global_branches hub)"
  by (auto simp: bound_ports_def list_all_iff split: option.splits)

lemma Ag_global_rows:
  fixes hub :: "('a::field) energy_hub"
  assumes bi: "bound_ports hub cn (input_ports c)" and bo: "bound_ports hub cn (output_ports c)"
  shows "\<exists>A. build_Ag_global hub cn c = Inr A \<and> well_shaped A \<and>
           rows A = cols (get_characteristic_matrix c) \<and> cols A = length (global_branches hub) \<and>
           (\<forall>(p, i) \<in> set (input_ports c). \<forall>b.
              dict_get (port_to_global_branch_map hub) (cn, p) = Some b \<longrightarrow>
              elems A ! i = (replicate (length (global_branches hub)) 0)[b := 1]) \<and>
           (\<forall>(p, i) \<in> set (output_ports c). \<forall>b.
              dict_get (port_to_global_branch_map hub) (cn, p) = Some b \<longrightarrow>
              elems A ! i = (replicate (length (global_branches hub)) 0)[b := - 1])"
proof -
  let ?B = "length (global_branches hub)"
  let ?n = "cols (get_characteristic_matrix c)"
  let ?pm = "port_to_global_branch_map hub"
  let ?A0 = "zeros ?n ?B :: 'a matrix"
  have w0: "well_shaped ?A0" by (rule zeros_well_shaped)
  have s0: "rows ?A0 = ?n" "cols ?A0 = ?B" by (simp_all add: zeros_def)
  have row0: "\<And>i. i < ?n \<Longrightarrow> elems ?A0 ! i = replicate ?B 0" by (simp add: zeros_def)
  have d: "distinct (map snd (input_ports c))" "distinct (map snd (output_ports c))"
    and dj: "snd ` set (input_ports c) \<inter> snd ` set (output_ports c) = {}"
    and ib: "\<forall>i \<in> snd ` set (input_ports c). i < ?n"
    and ob: "\<forall>i \<in> snd ` set (output_ports c). i < ?n"
    using port_indices [of c] by auto
  obtain A1 where p1: "place_ports ?pm cn 1 InputPortNotMapped (input_ports c) ?A0 = Inr A1"
    using place_ports_succeeds [where pm = ?pm and cn = cn and n = ?B and ps = "input_ports c"
        and A = ?A0 and v = 1 and err = InputPortNotMapped] bi ib s0
    by (auto simp: bound_ports_def)
  have w1: "well_shaped A1" by (rule place_ports_well_shaped [OF p1 w0])
  note sh1 = place_ports_shape [OF p1]
  obtain A where p2: "place_ports ?pm cn (- 1) OutputPortNotMapped (output_ports c) A1 = Inr A"
    using place_ports_succeeds [where pm = ?pm and cn = cn and n = ?B and ps = "output_ports c"
        and A = A1 and v = "- 1" and err = OutputPortNotMapped] bo ob s0 sh1
    by (auto simp: bound_ports_def)
  have w: "well_shaped A" by (rule place_ports_well_shaped [OF p2 w1])
  note sh = place_ports_shape [OF p2]
  note r1 = place_ports_rows [OF p1 w0 d(1)]
  note r2 = place_ports_rows [OF p2 w1 d(2)]
  have b: "build_Ag_global hub cn c = Inr A"
    by (simp add: build_Ag_global_def Let_def p1 p2)
  have ins: "\<forall>(p, i) \<in> set (input_ports c). \<forall>b. dict_get ?pm (cn, p) = Some b \<longrightarrow>
              elems A ! i = (replicate ?B 0)[b := 1]"
  proof (intro ballI, clarify)
    fix p i b assume pi: "(p, i) \<in> set (input_ports c)" and g: "dict_get ?pm (cn, p) = Some b"
    have i: "i < ?n" using ib pi by force
    have "i \<notin> snd ` set (output_ports c)" using dj pi by force
    then have "elems A ! i = elems A1 ! i" using r2 by blast
    also have "\<dots> = (elems ?A0 ! i)[b := 1]" using r1 pi g by blast
    finally show "elems A ! i = (replicate ?B 0)[b := 1]" by (simp add: row0 [OF i])
  qed
  have outs: "\<forall>(p, i) \<in> set (output_ports c). \<forall>b. dict_get ?pm (cn, p) = Some b \<longrightarrow>
              elems A ! i = (replicate ?B 0)[b := - 1]"
  proof (intro ballI, clarify)
    fix p i b assume pi: "(p, i) \<in> set (output_ports c)" and g: "dict_get ?pm (cn, p) = Some b"
    have i: "i < ?n" using ob pi by force
    have "i \<notin> snd ` set (input_ports c)" using dj pi by force
    then have "elems A1 ! i = elems ?A0 ! i" using r1 by blast
    moreover have "elems A ! i = (elems A1 ! i)[b := - 1]" using r2 pi g by blast
    ultimately show "elems A ! i = (replicate ?B 0)[b := - 1]" by (simp add: row0 [OF i])
  qed
  show ?thesis
    using b w sh sh1 s0 ins outs by auto
qed

lemma test_chp_bound:
  "bound_ports test_chp_hub ''CHP1'' (input_ports test_chp) \<and>
   bound_ports test_chp_hub ''CHP1'' (output_ports test_chp)"
  by code_simp

lemma test_chp_ports:
  "input_ports test_chp = [(''fuel_in'', 0)] \<and>
   output_ports test_chp = [(''heat_out'', 1), (''elec_out'', 2)] \<and>
   dict_get (port_to_global_branch_map test_chp_hub) (''CHP1'', ''fuel_in'') = Some 0 \<and>
   dict_get (port_to_global_branch_map test_chp_hub) (''CHP1'', ''heat_out'') = Some 1 \<and>
   dict_get (port_to_global_branch_map test_chp_hub) (''CHP1'', ''elec_out'') = Some 2 \<and>
   length (global_branches test_chp_hub) = 3 \<and>
   cols (get_characteristic_matrix test_chp) = 3"
  by code_simp

text \<open>
  C5. For a component all of whose declared ports are bound to branches of the hub, the
  assembler builds the global incidence expansion without error, with one row per
  local port index and one column per branch, and the row of every port has exactly
  one entry that is not zero: in the row of an input port the entry in the column of
  its branch is 1, in the row of an output port it is -1, and every other entry of the
  row is 0.
\<close>

theorem sign_convention:
  fixes hub :: "('a::field) energy_hub"
  assumes "bound_ports hub cn (input_ports c)" and "bound_ports hub cn (output_ports c)"
  shows "\<exists>A. build_Ag_global hub cn c = Inr A \<and>
           rows A = cols (get_characteristic_matrix c) \<and> cols A = length (global_branches hub) \<and>
           (\<forall>(p, i) \<in> set (input_ports c). \<forall>b.
              dict_get (port_to_global_branch_map hub) (cn, p) = Some b \<longrightarrow>
              b < length (global_branches hub) \<and> length (elems A ! i) = length (global_branches hub) \<and>
              (\<forall>j < length (global_branches hub). elems A ! i ! j = (if j = b then 1 else 0))) \<and>
           (\<forall>(p, i) \<in> set (output_ports c). \<forall>b.
              dict_get (port_to_global_branch_map hub) (cn, p) = Some b \<longrightarrow>
              b < length (global_branches hub) \<and> length (elems A ! i) = length (global_branches hub) \<and>
              (\<forall>j < length (global_branches hub). elems A ! i ! j = (if j = b then - 1 else 0)))"
proof -
  from Ag_global_rows [OF assms] obtain A where a: "build_Ag_global hub cn c = Inr A"
    and s: "rows A = cols (get_characteristic_matrix c)" "cols A = length (global_branches hub)"
    and i: "\<forall>(p, i) \<in> set (input_ports c). \<forall>b.
              dict_get (port_to_global_branch_map hub) (cn, p) = Some b \<longrightarrow>
              elems A ! i = (replicate (length (global_branches hub)) 0)[b := 1]"
    and out: "\<forall>(p, i) \<in> set (output_ports c). \<forall>b.
              dict_get (port_to_global_branch_map hub) (cn, p) = Some b \<longrightarrow>
              elems A ! i = (replicate (length (global_branches hub)) 0)[b := - 1]"
    by blast
  show ?thesis
  proof (intro exI [of _ A] conjI ballI)
    show "build_Ag_global hub cn c = Inr A" by (rule a)
    show "rows A = cols (get_characteristic_matrix c)" "cols A = length (global_branches hub)"
      by (rule s)+
  next
    fix x assume x: "x \<in> set (input_ports c)"
    obtain p k where xp: "x = (p, k)" by (cases x)
    show "case x of (p, i) \<Rightarrow> \<forall>b. dict_get (port_to_global_branch_map hub) (cn, p) = Some b \<longrightarrow>
              b < length (global_branches hub) \<and> length (elems A ! i) = length (global_branches hub) \<and>
              (\<forall>j < length (global_branches hub). elems A ! i ! j = (if j = b then 1 else 0))"
      using i x bound_ports_lookup [OF assms(1), of p k]
      by (auto simp: xp nth_list_update)
  next
    fix x assume x: "x \<in> set (output_ports c)"
    obtain p k where xp: "x = (p, k)" by (cases x)
    show "case x of (p, i) \<Rightarrow> \<forall>b. dict_get (port_to_global_branch_map hub) (cn, p) = Some b \<longrightarrow>
              b < length (global_branches hub) \<and> length (elems A ! i) = length (global_branches hub) \<and>
              (\<forall>j < length (global_branches hub). elems A ! i ! j = (if j = b then - 1 else 0))"
      using out x bound_ports_lookup [OF assms(2), of p k]
      by (auto simp: xp nth_list_update)
  qed
qed


theorem sign_convention_witness:
  "bound_ports test_chp_hub ''CHP1'' (input_ports test_chp) \<and>
   bound_ports test_chp_hub ''CHP1'' (output_ports test_chp) \<and>
   (\<exists>A. build_Ag_global test_chp_hub ''CHP1'' test_chp = Inr A \<and> rows A = 3 \<and> cols A = 3 \<and>
      map (\<lambda>j. elems A ! 0 ! j) [0, 1, 2] = [1, 0, 0] \<and>
      map (\<lambda>j. elems A ! 1 ! j) [0, 1, 2] = [0, - 1, 0] \<and>
      map (\<lambda>j. elems A ! 2 ! j) [0, 1, 2] = [0, 0, - 1])"
proof -
  note b = test_chp_bound
  from sign_convention [of test_chp_hub "''CHP1''" test_chp] b
  show ?thesis
    by (auto simp: test_chp_ports)
qed

subsection \<open>The balance row of a storage unit\<close>

lemma list3: "length xs = 3 \<Longrightarrow> xs = [xs ! 0, xs ! 1, xs ! 2]"
proof -
  assume "length xs = 3"
  then obtain a b c where "xs = [a, b, c]"
    by (auto simp: numeral_3_eq_3 length_Suc_conv)
  then show ?thesis by simp
qed

lemma storage_row_balance:
  fixes c d :: "'a::field"
  assumes "length V = B" and "b_in < B" and "b_out < B" and "b_v < B"
  shows "dot (map (\<lambda>j. (if j = b_in then c else 0) + (if j = b_out then 1 / d else 0)
                        + (if j = b_v then - 1 else 0)) [0..<B]) V
         = c * V ! b_in + V ! b_out / d - V ! b_v"
proof -
  let ?f = "\<lambda>j. (if j = b_in then c else 0) + (if j = b_out then 1 / d else 0)
                 + (if j = b_v then - 1 else 0)"
  have "dot (map ?f [0..<B]) V = (\<Sum>j<B. map ?f [0..<B] ! j * V ! j)"
    by (rule dot_sum) (simp_all add: assms(1))
  also have "\<dots> = (\<Sum>j<B. (if j = b_in then c * V ! j else 0)
                        + (if j = b_out then V ! j / d else 0)
                        + (if j = b_v then - V ! j else 0))"
    by (intro sum.cong) (auto simp: algebra_simps)
  also have "\<dots> = (\<Sum>j<B. if j = b_in then c * V ! j else 0)
                  + (\<Sum>j<B. if j = b_out then V ! j / d else 0)
                  + (\<Sum>j<B. if j = b_v then - V ! j else 0)"
    by (simp add: sum.distrib)
  also have "\<dots> = c * V ! b_in + V ! b_out / d - V ! b_v"
    using assms(2-4) by (simp add: sum.delta')
  finally show ?thesis .
qed

lemma characteristic_matrix_well_shaped:
  fixes c :: "('a::field) component"
  shows "well_shaped (get_characteristic_matrix c)"
  by (cases c) (simp_all add: well_shaped_def from_rows_def)

lemma build_Z_blocks_append:
  "build_Z_blocks hub (pre @ post) = Inr Zs \<Longrightarrow>
   \<exists>Zp Zq. build_Z_blocks hub pre = Inr Zp \<and> build_Z_blocks hub post = Inr Zq \<and> Zs = Zp @ Zq"
proof (induction pre arbitrary: Zs)
  case Nil
  then show ?case by simp
next
  case (Cons p pre)
  obtain cn c where p: "p = (cn, c)" by (cases p)
  from Cons.prems obtain A Zg Zs' where a: "build_Ag_global hub cn c = Inr A"
    and m: "mat_mul (get_characteristic_matrix c) A = Inr Zg"
    and r: "build_Z_blocks hub (pre @ post) = Inr Zs'" and z: "Zs = Zg # Zs'"
    by (auto simp: p split: sum.splits)
  from Cons.IH [OF r] show ?case by (auto simp: p a m z)
qed

lemma build_Z_blocks_lengths:
  fixes hub :: "('a::field) energy_hub"
  shows "build_Z_blocks hub cs = Inr Zs \<Longrightarrow> list_all (\<lambda>Z. length (elems Z) = rows Z) Zs"
proof (induction cs arbitrary: Zs)
  case Nil
  then show ?case by simp
next
  case (Cons p cs)
  obtain cn c where p: "p = (cn, c)" by (cases p)
  from Cons.prems obtain A Zg Zs' where a: "build_Ag_global hub cn c = Inr A"
    and m: "mat_mul (get_characteristic_matrix c) A = Inr Zg"
    and r: "build_Z_blocks hub cs = Inr Zs'" and z: "Zs = Zg # Zs'"
    by (auto simp: p split: sum.splits)
  have "well_shaped Zg"
    by (rule mat_mul_well_shaped [OF m characteristic_matrix_well_shaped])
  then show ?case using Cons.IH [OF r] by (simp add: z well_shaped_def)
qed

lemma vstack_from_elems:
  "list_all (\<lambda>B. cols B = cols A) Bs \<Longrightarrow> vstack_from A Bs = Inr M \<Longrightarrow>
   elems M = elems A @ concat (map elems Bs)"
proof (induction Bs arbitrary: A)
  case Nil
  then show ?case by simp
next
  case (Cons B Bs)
  let ?AB = "\<lparr>rows = rows A + rows B, cols = cols A, elems = elems A @ elems B\<rparr>"
  have j: "col_join A B = Inr ?AB" using Cons.prems(1) by (simp add: col_join_def)
  have l: "list_all (\<lambda>B. cols B = cols ?AB) Bs" using Cons.prems(1) by simp
  have "vstack_from ?AB Bs = Inr M" using Cons.prems(2) by (simp add: j)
  from Cons.IH [OF l this] show ?case by simp
qed

lemma vstack_elems:
  assumes "Zs \<noteq> []" and "list_all (\<lambda>Z. cols Z = n) Zs" and "vstack Zs = Inr M"
  shows "elems M = concat (map elems Zs)"
proof -
  from assms(1) obtain A As where zs: "Zs = A # As" by (cases Zs) auto
  have "list_all (\<lambda>B. cols B = cols A) As"
    using assms(2) by (auto simp: zs list_all_iff)
  from vstack_from_elems [OF this] assms(3) show ?thesis
    by (simp add: vstack_def zs)
qed

lemma assembled_Z_row:
  fixes hub :: "('a::field) energy_hub"
  assumes "system_matrices hub = Inr (X, Y, Z)"
    and "components hub = pre @ (cn, c) # post"
    and "build_Ag_global hub cn c = Inr A"
    and "mat_mul (get_characteristic_matrix c) A = Inr Zg"
    and "i < rows Zg"
  shows "elems Z ! (balance_rows pre + i) = elems Zg ! i"
proof -
  let ?B = "length (global_branches hub)"
  from assms(1) obtain Zs where zb: "build_Z_blocks hub (components hub) = Inr Zs"
    and zz: "(if Zs = [] then Inr (zeros 0 ?B) else vstack Zs) = Inr Z"
    by (auto simp: system_matrices_def Let_def split: if_splits sum.splits)
  from build_Z_blocks_append [of hub pre "(cn, c) # post" Zs] zb assms(2)
  obtain Zp Zq where p: "build_Z_blocks hub pre = Inr Zp"
    and q: "build_Z_blocks hub ((cn, c) # post) = Inr Zq" and s: "Zs = Zp @ Zq"
    by auto
  from q obtain Zr where zq: "Zq = Zg # Zr"
    by (auto simp: assms(3,4) split: sum.splits)
  have ne: "Zs \<noteq> []" by (simp add: s zq)
  have e: "elems Z = concat (map elems Zs)"
    using vstack_elems [OF ne _ ] zz ne build_Z_blocks_shape [OF zb] by auto
  have "list_all (\<lambda>Z. length (elems Z) = rows Z) Zp" by (rule build_Z_blocks_lengths [OF p])
  then have "length (concat (map elems Zp)) = sum_list (map rows Zp)"
    by (induction Zp) simp_all
  then have lp: "length (concat (map elems Zp)) = balance_rows pre"
    using build_Z_blocks_shape [OF p] by simp
  have "list_all (\<lambda>Z. length (elems Z) = rows Z) Zq" by (rule build_Z_blocks_lengths [OF q])
  then have lg: "length (elems Zg) = rows Zg" by (simp add: zq)
  show ?thesis
    using assms(5) lg by (simp add: e s zq nth_append lp)
qed

lemma storage_hub_bindings:
  "dict_get (port_to_global_branch_map storage_hub) (''S1'', ''energy_in'') = Some 0 \<and>
   dict_get (port_to_global_branch_map storage_hub) (''S1'', ''energy_out'') = Some 1 \<and>
   dict_get (port_to_global_branch_map storage_hub) (''S1'', ''delta_soc'') = Some 2 \<and>
   length (global_branches storage_hub) = 3 \<and>
   components storage_hub = [] @ (''S1'', Storage ''S1'' (95 / 100) (9 / 10)) # []"
  by code_simp

text \<open>
  C10. The storage unit registers its virtual port \<^verbatim>\<open>delta_soc\<close> as an input port with
  local index 2, so its row of the incidence expansion has 1 in the column of the
  virtual branch. With the three ports bound to branches \<open>b_in\<close>, \<open>b_out\<close> and \<open>b_v\<close> and
  an efficiency \<open>eta_d\<close> that is not zero, the block of the storage unit in \<open>Z\<close> is one
  row, which puts \<open>eta_c\<close> in column \<open>b_in\<close>, \<open>1/eta_d\<close> in column \<open>b_out\<close> and -1 in
  column \<open>b_v\<close> (the sum of these where columns coincide) and zero elsewhere; it is the
  row of the assembled \<open>Z\<close> at the offset of the component. For every vector \<open>V\<close> of
  branch values the row gives \<open>eta_c * V b_in + V b_out / eta_d - V b_v\<close>.
\<close>

theorem storage_balance_row:
  fixes hub :: "('a::field) energy_hub"
  assumes "dict_get (port_to_global_branch_map hub) (cn, ''energy_in'') = Some b_in"
    and "dict_get (port_to_global_branch_map hub) (cn, ''energy_out'') = Some b_out"
    and "dict_get (port_to_global_branch_map hub) (cn, ''delta_soc'') = Some b_v"
    and "b_in < length (global_branches hub)" and "b_out < length (global_branches hub)"
    and "b_v < length (global_branches hub)"
    and "d \<noteq> 0"
  shows "dict_get (input_ports (Storage n c d)) ''delta_soc'' = Some 2 \<and>
         (\<exists>A Zg. build_Ag_global hub cn (Storage n c d) = Inr A \<and>
            (\<forall>j < length (global_branches hub). elems A ! 2 ! j = (if j = b_v then 1 else 0)) \<and>
            mat_mul (get_characteristic_matrix (Storage n c d)) A = Inr Zg \<and>
            rows Zg = 1 \<and> cols Zg = length (global_branches hub) \<and>
            elems Zg = [map (\<lambda>j. (if j = b_in then c else 0) + (if j = b_out then 1 / d else 0)
                                   + (if j = b_v then - 1 else 0)) [0..<length (global_branches hub)]] \<and>
            (\<forall>V. length V = length (global_branches hub) \<longrightarrow>
                 dot (elems Zg ! 0) V = c * V ! b_in + V ! b_out / d - V ! b_v) \<and>
            (\<forall>pre post X Y Z.
                 components hub = pre @ (cn, Storage n c d) # post \<and>
                 system_matrices hub = Inr (X, Y, Z) \<longrightarrow>
                 elems Z ! balance_rows pre = elems Zg ! 0))"
proof -
  let ?B = "length (global_branches hub)"
  let ?S = "Storage n c d"
  let ?row = "map (\<lambda>j. (if j = b_in then c else 0) + (if j = b_out then 1 / d else 0)
                         + (if j = b_v then - 1 else 0)) [0..<?B]"
  have ip: "input_ports ?S = [(''energy_in'', 0), (''delta_soc'', 2)]"
    and op: "output_ports ?S = [(''energy_out'', 1)]"
    and hg: "get_characteristic_matrix ?S = \<lparr>rows = 1, cols = 3, elems = [[c, - 1 / d, - 1]]\<rparr>"
    by (simp_all add: add_port_def dict_set_def from_rows_def)
  have bi: "bound_ports hub cn (input_ports ?S)" and bo: "bound_ports hub cn (output_ports ?S)"
    unfolding bound_ports_def ip op using assms by simp_all
  from Ag_global_rows [OF bi bo] obtain A where a: "build_Ag_global hub cn ?S = Inr A"
    and w: "well_shaped A" and ra: "rows A = 3" and ca: "cols A = ?B"
    and r0: "elems A ! 0 = (replicate ?B 0)[b_in := 1]"
    and r2: "elems A ! 2 = (replicate ?B 0)[b_v := 1]"
    and r1: "elems A ! 1 = (replicate ?B 0)[b_out := - 1]"
    unfolding ip op hg using assms(1-3) by auto
  have "length (elems A) = 3" using w ra by (simp add: well_shaped_def)
  then have ea: "elems A = [(replicate ?B 0)[b_in := 1], (replicate ?B 0)[b_out := - 1],
                            (replicate ?B 0)[b_v := 1]]"
    using list3 [of "elems A"] r0 r1 r2 by simp
  define Zg where "Zg = \<lparr>rows = 1, cols = ?B, elems = [?row]\<rparr>"
  have mp: "map (\<lambda>j. dot [c, - 1 / d, - 1] (column A j)) [0..<?B] = ?row"
    using assms(4-6)
    by (intro nth_equalityI) (auto simp: column_def ea dot_def nth_list_update)
  have "mat_mul \<lparr>rows = 1, cols = 3, elems = [[c, - 1 / d, - 1]]\<rparr> A
          = Inr \<lparr>rows = 1, cols = ?B,
                  elems = [map (\<lambda>j. dot [c, - 1 / d, - 1] (column A j)) [0..<?B]]\<rparr>"
    by (simp add: mat_mul_def ra ca)
  then have m: "mat_mul (get_characteristic_matrix ?S) A = Inr Zg"
    unfolding hg Zg_def by (simp only: mp)
  have bal: "\<forall>V. length V = ?B \<longrightarrow> dot (elems Zg ! 0) V = c * V ! b_in + V ! b_out / d - V ! b_v"
    by (simp add: Zg_def storage_row_balance [OF _ assms(4-6)])
  have e2: "\<forall>j < ?B. elems A ! 2 ! j = (if j = b_v then 1 else 0)"
    by (simp add: r2 nth_list_update)
  have zr: "\<forall>pre post X Y Z.
             components hub = pre @ (cn, ?S) # post \<and> system_matrices hub = Inr (X, Y, Z) \<longrightarrow>
             elems Z ! balance_rows pre = elems Zg ! 0"
  proof (intro allI impI, elim conjE)
    fix pre post X Y Z
    assume c: "components hub = pre @ (cn, ?S) # post" and s: "system_matrices hub = Inr (X, Y, Z)"
    have "0 < rows Zg" by (simp add: Zg_def)
    from assembled_Z_row [OF s c a m this] show "elems Z ! balance_rows pre = elems Zg ! 0"
      by simp
  qed
  have "dict_get (input_ports ?S) ''delta_soc'' = Some 2"
    unfolding ip by (simp add: dict_get_def)
  moreover have "rows Zg = 1" "cols Zg = ?B" "elems Zg = [?row]"
    by (simp_all add: Zg_def)
  ultimately show ?thesis
    using a m bal e2 zr by blast
qed



theorem storage_balance_row_witness:
  "dict_get (port_to_global_branch_map storage_hub) (''S1'', ''energy_in'') = Some 0 \<and>
   dict_get (port_to_global_branch_map storage_hub) (''S1'', ''energy_out'') = Some 1 \<and>
   dict_get (port_to_global_branch_map storage_hub) (''S1'', ''delta_soc'') = Some 2 \<and>
   length (global_branches storage_hub) = 3 \<and> (9 / 10 :: rat) \<noteq> 0 \<and>
   (\<exists>X Y Z. system_matrices storage_hub = Inr (X, Y, Z) \<and>
      elems Z ! 0 = [95 / 100, 10 / 9, - 1])"
proof -
  note b = storage_hub_bindings
  from b have b1: "dict_get (port_to_global_branch_map storage_hub) (''S1'', ''energy_in'') = Some 0"
    and b2: "dict_get (port_to_global_branch_map storage_hub) (''S1'', ''energy_out'') = Some 1"
    and b3: "dict_get (port_to_global_branch_map storage_hub) (''S1'', ''delta_soc'') = Some 2"
    and l: "length (global_branches storage_hub) = 3"
    and c: "components storage_hub = [] @ (''S1'', Storage ''S1'' (95 / 100) (9 / 10)) # []"
    by blast+
  have l1: "0 < length (global_branches storage_hub)" "1 < length (global_branches storage_hub)"
    "2 < length (global_branches storage_hub)" by (simp_all add: l)
  obtain X Y Z where s: "system_matrices storage_hub = Inr (X, Y, Z)"
    using storage_hub_assembles
    by (auto simp: build_system_matrices_def split: sum.splits)
  have d: "(9 / 10 :: rat) \<noteq> 0" by simp
  from storage_balance_row [OF b1 b2 b3 l1 d, of "''S1''" "95 / 100"]
  obtain Zg :: "rat matrix" where e: "elems Zg = [map (\<lambda>j. (if j = 0 then 95 / 100 else 0)
        + (if j = 1 then 1 / (9 / 10) else 0) + (if j = 2 then - 1 else (0::rat)))
        [0..<length (global_branches storage_hub)]]"
    and z: "\<forall>pre post X Y Z.
       components storage_hub = pre @ (''S1'', Storage ''S1'' (95 / 100) (9 / 10)) # post \<and>
       system_matrices storage_hub = Inr (X, Y, Z) \<longrightarrow>
       elems Z ! balance_rows pre = elems Zg ! 0"
    by blast
  have "elems Z ! balance_rows ([] :: (string \<times> rat component) list) = elems Zg ! 0"
    using z [rule_format, of "[]" "[]" X Y Z] c s by simp
  then have "elems Z ! 0 = [95 / 100, 10 / 9, - 1]"
    by (simp add: e l balance_rows_def upt_rec numeral_3_eq_3)
  then show ?thesis using b1 b2 b3 l s d by blast
qed

subsection \<open>Ports without a binding\<close>

lemma place_ports_unbound_fails:
  "(p, i) \<in> set ps \<Longrightarrow> dict_get pm (cn, p) = None \<Longrightarrow>
   \<exists>e. place_ports pm cn v err ps A = Inl e"
proof (induction ps arbitrary: A)
  case Nil
  then show ?case by simp
next
  case (Cons q ps)
  obtain pn k where q: "q = (pn, k)" by (cases q)
  show ?case
  proof (cases "dict_get pm (cn, pn)")
    case None
    then show ?thesis by (simp add: q)
  next
    case (Some g)
    then have "(p, i) \<in> set ps" using Cons.prems by (auto simp: q)
    then show ?thesis
      using Cons.IH Cons.prems(2) by (auto simp: q Some split: sum.splits)
  qed
qed

lemma build_Ag_global_unbound_fails:
  fixes hub :: "('a::field) energy_hub"
  assumes "(p, i) \<in> set (input_ports c) \<union> set (output_ports c)"
    and "dict_get (port_to_global_branch_map hub) (cn, p) = None"
  shows "\<exists>e. build_Ag_global hub cn c = Inl e"
proof (cases "(p, i) \<in> set (input_ports c)")
  case True
  from place_ports_unbound_fails [OF True assms(2), where v = "1::'a" and err = InputPortNotMapped
      and A = "zeros (cols (get_characteristic_matrix c)) (length (global_branches hub))"]
  obtain e where "place_ports (port_to_global_branch_map hub) cn (1::'a) InputPortNotMapped
      (input_ports c) (zeros (cols (get_characteristic_matrix c)) (length (global_branches hub)))
      = Inl e"
    by blast
  then show ?thesis
    by (simp add: build_Ag_global_def Let_def)
next
  case False
  then have o: "(p, i) \<in> set (output_ports c)" using assms(1) by simp
  show ?thesis
  proof (cases "place_ports (port_to_global_branch_map hub) cn (1::'a) InputPortNotMapped
      (input_ports c) (zeros (cols (get_characteristic_matrix c)) (length (global_branches hub)))")
    case (Inl e)
    then show ?thesis by (simp add: build_Ag_global_def Let_def)
  next
    case (Inr A1)
    from place_ports_unbound_fails [OF o assms(2), where v = "- 1::'a" and err = OutputPortNotMapped
      and A = A1]
    show ?thesis by (simp add: build_Ag_global_def Let_def Inr)
  qed
qed

lemma build_Z_blocks_unbound_fails:
  fixes hub :: "('a::field) energy_hub"
  assumes "(cn, c) \<in> set cs" and "(p, i) \<in> set (input_ports c) \<union> set (output_ports c)"
    and "dict_get (port_to_global_branch_map hub) (cn, p) = None"
  shows "\<exists>e. build_Z_blocks hub cs = Inl e"
  using assms(1)
proof (induction cs)
  case Nil
  then show ?case by simp
next
  case (Cons q cs)
  obtain cn' c' where q: "q = (cn', c')" by (cases q)
  show ?case
  proof (cases "q = (cn, c)")
    case True
    from build_Ag_global_unbound_fails [OF assms(2,3)] show ?thesis
      by (auto simp: True)
  next
    case False
    then have "\<exists>e. build_Z_blocks hub cs = Inl e" using Cons by auto
    then show ?thesis by (auto simp: q split: sum.splits)
  qed
qed

lemma unbound_port_always_fails:
  fixes hub :: "('a::field) energy_hub"
  assumes "(cn, c) \<in> set (components hub)"
    and "(p, i) \<in> set (input_ports c) \<union> set (output_ports c)"
    and "dict_get (port_to_global_branch_map hub) (cn, p) = None"
  shows "\<exists>e. build_system_matrices hub = Inl e"
  using build_Z_blocks_unbound_fails [OF assms]
  by (auto simp: build_system_matrices_def system_matrices_def Let_def)


lemma valid_lookup:
  "list_all (\<lambda>(k, b). b < n) pm \<Longrightarrow> dict_get pm k = Some b \<Longrightarrow> b < n"
  by (auto simp: dict_get_def list_all_iff dest!: map_of_SomeD)

lemma place_ports_result:
  assumes "list_all (\<lambda>(k, b). b < n) pm" and "cols A = n" and "\<forall>i \<in> snd ` set ps. i < rows A"
  shows "(\<exists>A'. place_ports pm cn v err ps A = Inr A') \<or>
         (\<exists>p. p \<in> fst ` set ps \<and> dict_get pm (cn, p) = None \<and>
              place_ports pm cn v err ps A = Inl (err p cn))"
  using assms(2,3)
proof (induction ps arbitrary: A)
  case Nil
  then show ?case by simp
next
  case (Cons q ps)
  obtain pn k where q: "q = (pn, k)" by (cases q)
  show ?case
  proof (cases "dict_get pm (cn, pn)")
    case None
    then show ?thesis by (auto simp: q)
  next
    case (Some g)
    have "g < n" by (rule valid_lookup [OF assms(1) Some])
    then obtain A1 where s: "set_entry A k g v = Inr A1"
      using Cons.prems by (simp add: set_entry_def q)
    note sh = set_entry_shape [OF s]
    have "(\<exists>A'. place_ports pm cn v err ps A1 = Inr A') \<or>
          (\<exists>p. p \<in> fst ` set ps \<and> dict_get pm (cn, p) = None \<and>
               place_ports pm cn v err ps A1 = Inl (err p cn))"
      using Cons.prems sh by (intro Cons.IH) simp_all
    then show ?thesis by (auto simp: q Some s)
  qed
qed

lemma build_Ag_global_result:
  fixes hub :: "('a::field) energy_hub"
  assumes "valid_bindings hub"
  shows "(\<exists>A. build_Ag_global hub cn c = Inr A) \<or>
         (\<exists>e. build_Ag_global hub cn c = Inl e \<and>
              binding_error_in (port_to_global_branch_map hub) [(cn, c)] e)"
proof -
  let ?pm = "port_to_global_branch_map hub"
  let ?B = "length (global_branches hub)"
  let ?A0 = "zeros (cols (get_characteristic_matrix c)) ?B :: 'a matrix"
  have v: "list_all (\<lambda>(k, b). b < ?B) ?pm" using assms by (simp add: valid_bindings_def)
  have ib: "\<forall>i \<in> snd ` set (input_ports c). i < rows ?A0"
    and ob: "\<forall>i \<in> snd ` set (output_ports c). i < rows ?A0"
    using port_indices [of c] by (auto simp: zeros_def)
  have c0: "cols ?A0 = ?B" by (simp add: zeros_def)
  from place_ports_result [OF v c0 ib, of cn 1 InputPortNotMapped]
  show ?thesis
  proof
    assume "\<exists>A'. place_ports ?pm cn 1 InputPortNotMapped (input_ports c) ?A0 = Inr A'"
    then obtain A1 where p1: "place_ports ?pm cn 1 InputPortNotMapped (input_ports c) ?A0 = Inr A1"
      by blast
    note sh = place_ports_shape [OF p1]
    have c1: "cols A1 = ?B" and ob1: "\<forall>i \<in> snd ` set (output_ports c). i < rows A1"
      using sh ob c0 by simp_all
    from place_ports_result [OF v c1 ob1, of cn "- 1" OutputPortNotMapped]
    show ?thesis
    proof
      assume "\<exists>A'. place_ports ?pm cn (- 1) OutputPortNotMapped (output_ports c) A1 = Inr A'"
      then show ?thesis by (simp add: build_Ag_global_def Let_def p1)
    next
      assume "\<exists>p. p \<in> fst ` set (output_ports c) \<and> dict_get ?pm (cn, p) = None \<and>
                 place_ports ?pm cn (- 1) OutputPortNotMapped (output_ports c) A1
                   = Inl (OutputPortNotMapped p cn)"
      then obtain p where "p \<in> fst ` set (output_ports c)" and "dict_get ?pm (cn, p) = None"
        and "place_ports ?pm cn (- 1) OutputPortNotMapped (output_ports c) A1
               = Inl (OutputPortNotMapped p cn)"
        by blast
      then have "build_Ag_global hub cn c = Inl (OutputPortNotMapped p cn) \<and>
                 binding_error_in ?pm [(cn, c)] (OutputPortNotMapped p cn)"
        by (auto simp: build_Ag_global_def Let_def p1 binding_error_in_def dict_has_def dict_keys_def)
      then show ?thesis by blast
    qed
  next
    assume "\<exists>p. p \<in> fst ` set (input_ports c) \<and> dict_get ?pm (cn, p) = None \<and>
               place_ports ?pm cn 1 InputPortNotMapped (input_ports c) ?A0
                 = Inl (InputPortNotMapped p cn)"
    then obtain p where "p \<in> fst ` set (input_ports c)" and "dict_get ?pm (cn, p) = None"
      and "place_ports ?pm cn 1 InputPortNotMapped (input_ports c) ?A0
             = Inl (InputPortNotMapped p cn)"
      by blast
    then have "build_Ag_global hub cn c = Inl (InputPortNotMapped p cn) \<and>
               binding_error_in ?pm [(cn, c)] (InputPortNotMapped p cn)"
      by (auto simp: build_Ag_global_def Let_def binding_error_in_def dict_has_def dict_keys_def)
    then show ?thesis by blast
  qed
qed

lemma binding_error_in_mono:
  "binding_error_in pm cs e \<Longrightarrow> set cs \<subseteq> set cs' \<Longrightarrow> binding_error_in pm cs' e"
  unfolding binding_error_in_def by blast

lemma build_Z_blocks_result:
  fixes hub :: "('a::field) energy_hub"
  assumes "valid_bindings hub"
  shows "(\<exists>Zs. build_Z_blocks hub cs = Inr Zs) \<or>
         (\<exists>e. build_Z_blocks hub cs = Inl e \<and>
              binding_error_in (port_to_global_branch_map hub) cs e)"
proof (induction cs)
  case Nil
  then show ?case by simp
next
  case (Cons q cs)
  obtain cn c where q: "q = (cn, c)" by (cases q)
  from build_Ag_global_result [OF assms, of cn c] show ?case
  proof
    assume "\<exists>A. build_Ag_global hub cn c = Inr A"
    then obtain A where a: "build_Ag_global hub cn c = Inr A" by blast
    obtain Zg where m: "mat_mul (get_characteristic_matrix c) A = Inr Zg"
      using mat_mul_defined [of "get_characteristic_matrix c" A] build_Ag_global_shape [OF a]
      by auto
    from Cons.IH show ?thesis
    proof
      assume "\<exists>Zs. build_Z_blocks hub cs = Inr Zs"
      then show ?thesis by (auto simp: q a m)
    next
      assume "\<exists>e. build_Z_blocks hub cs = Inl e \<and>
                 binding_error_in (port_to_global_branch_map hub) cs e"
      then obtain e where e: "build_Z_blocks hub cs = Inl e"
        and b: "binding_error_in (port_to_global_branch_map hub) cs e" by blast
      have "binding_error_in (port_to_global_branch_map hub) (q # cs) e"
        by (rule binding_error_in_mono [OF b]) auto
      then show ?thesis by (auto simp: q a m e)
    qed
  next
    assume "\<exists>e. build_Ag_global hub cn c = Inl e \<and>
               binding_error_in (port_to_global_branch_map hub) [(cn, c)] e"
    then obtain e where e: "build_Ag_global hub cn c = Inl e"
      and b: "binding_error_in (port_to_global_branch_map hub) [(cn, c)] e" by blast
    have "binding_error_in (port_to_global_branch_map hub) (q # cs) e"
      by (rule binding_error_in_mono [OF b]) (auto simp: q)
    then show ?thesis by (auto simp: q e)
  qed
qed

text \<open>
  C8, as amended. If some component of the hub has a declared input or output port
  without a binding, the matrix assembly fails and sets no matrix, in every hub. If the
  hub has at least one branch and each of its recorded bindings points to one of its
  branches, the failure is the error for a port without a binding, raised for a
  declared port of a component of the hub that indeed has none. (In a hub without
  branches the assembly fails before it looks at any port, with the error for a hub
  without branches; the counterexample is a new hub with one boiler.)
\<close>

theorem unbound_port_fails:
  fixes hub :: "('a::field) energy_hub"
  assumes "(cn, c) \<in> set (components hub)"
    and "(p, i) \<in> set (input_ports c) \<union> set (output_ports c)"
    and "dict_get (port_to_global_branch_map hub) (cn, p) = None"
  shows "(\<exists>e. build_system_matrices hub = Inl e) \<and>
         (0 < length (global_branches hub) \<and> valid_bindings hub \<longrightarrow>
            (\<exists>e. build_system_matrices hub = Inl e \<and>
                 binding_error_in (port_to_global_branch_map hub) (components hub) e))"
proof (intro conjI impI)
  show "\<exists>e. build_system_matrices hub = Inl e"
    by (rule unbound_port_always_fails [OF assms])
next
  assume h: "0 < length (global_branches hub) \<and> valid_bindings hub"
  from build_Z_blocks_unbound_fails [OF assms] obtain e0
    where "build_Z_blocks hub (components hub) = Inl e0" by blast
  with build_Z_blocks_result [of hub "components hub"] h
  obtain e where e: "build_Z_blocks hub (components hub) = Inl e"
    and b: "binding_error_in (port_to_global_branch_map hub) (components hub) e"
    by auto
  have "build_system_matrices hub = Inl e"
    using h e by (simp add: build_system_matrices_def system_matrices_def Let_def)
  with b show "\<exists>e. build_system_matrices hub = Inl e \<and>
                 binding_error_in (port_to_global_branch_map hub) (components hub) e"
    by blast
qed

theorem unbound_port_fails_witness:
  "(''Boiler1'', Boiler ''Boiler1'' (9 / 10)) \<in> set (components half_bound_hub) \<and>
   (''heat_out'', 1) \<in> set (output_ports (Boiler ''Boiler1'' (9 / 10 :: rat))) \<and>
   dict_get (port_to_global_branch_map half_bound_hub) (''Boiler1'', ''heat_out'') = None \<and>
   0 < length (global_branches half_bound_hub) \<and> valid_bindings half_bound_hub \<and>
   (\<exists>e. build_system_matrices half_bound_hub = Inl e \<and>
        binding_error_in (port_to_global_branch_map half_bound_hub) (components half_bound_hub) e)"
proof -
  have a: "(''Boiler1'', Boiler ''Boiler1'' (9 / 10)) \<in> set (components half_bound_hub)"
    and b: "(''heat_out'', 1) \<in> set (input_ports (Boiler ''Boiler1'' (9 / 10 :: rat)))
              \<union> set (output_ports (Boiler ''Boiler1'' (9 / 10 :: rat)))"
    and c: "dict_get (port_to_global_branch_map half_bound_hub) (''Boiler1'', ''heat_out'') = None"
    and d: "0 < length (global_branches half_bound_hub)" "valid_bindings half_bound_hub"
    by (simp_all add: half_bound_hub_def new_energy_hub_def add_port_def dict_set_def
          dict_get_def valid_bindings_def)
  from unbound_port_fails [OF a b c] d a b c show ?thesis
    by (simp add: add_port_def dict_set_def)
qed

theorem binding_error_counterexample:
  "hub_add_component (Boiler ''Boiler1'' (9 / 10)) (new_energy_hub ''FreshHub'') = Inr unconfigured_hub \<and>
   dict_has (input_ports (Boiler ''Boiler1'' (9 / 10 :: rat))) ''fuel_in'' \<and>
   dict_get (port_to_global_branch_map unconfigured_hub) (''Boiler1'', ''fuel_in'') = None \<and>
   build_system_matrices unconfigured_hub = Inl NoGlobalBranches \<and>
   build_system_matrices unconfigured_hub \<noteq> Inl (InputPortNotMapped ''fuel_in'' ''Boiler1'')"
  by code_simp

subsection \<open>The compiled configuration\<close>

lemma pm_lookup_pm_set:
  "pm_lookup (pm_set c p b pm) c' p' = (if c' = c \<and> p' = p then Some b else pm_lookup pm c' p')"
  by (auto simp: pm_lookup_def pm_set_def dict_get_def dict_set_def update_conv' split: option.splits)

lemma edge_step_branches:
  "cfg_branches (edge_step g e cfg) = cfg_branches cfg @ [edge_branch e]"
  by (cases e) (simp add: edge_step_def edge_branch_def Let_def)

lemma edge_step_lookup:
  assumes "is_component_node g c"
  shows "pm_lookup (cfg_port_mappings (edge_step g e cfg)) c p =
           (if touches c p e then Some (edge_branch e) else pm_lookup (cfg_port_mappings cfg) c p)"
proof -
  obtain u v d where e: "e = (u, v, d)" by (cases e)
  show ?thesis
    using assms
    by (auto simp: e edge_step_def Let_def touches_def edge_branch_def pm_lookup_pm_set)
qed

lemma fold_edge_step_branches:
  "cfg_branches (fold (edge_step g) es cfg) = cfg_branches cfg @ map edge_branch es"
  by (induction es arbitrary: cfg) (simp_all add: edge_step_branches)

lemma fold_edge_step_lookup:
  assumes "is_component_node g c"
  shows "pm_lookup (cfg_port_mappings (fold (edge_step g) es cfg)) c p =
           (if filter (touches c p) es = [] then pm_lookup (cfg_port_mappings cfg) c p
            else Some (edge_branch (last (filter (touches c p) es))))"
proof (induction es rule: rev_induct)
  case Nil
  then show ?case by simp
next
  case (snoc e es)
  show ?case
    by (simp add: edge_step_lookup [OF assms] snoc)
qed

lemma storage_step_branches:
  "cfg_branches (fold storage_step insts cfg) =
     cfg_branches cfg @ map (\<lambda>(cn, c). virtual_branch_name cn) (filter (\<lambda>(cn, c). isinstance_Storage c) insts)"
  by (induction insts arbitrary: cfg) (auto simp: storage_step_def)

lemma storage_step_lookup:
  "pm_lookup (cfg_port_mappings (fold storage_step insts cfg)) c p =
     (if p = ''delta_soc'' \<and> (\<exists>ci. (c, ci) \<in> set insts \<and> isinstance_Storage ci)
      then Some (virtual_branch_name c) else pm_lookup (cfg_port_mappings cfg) c p)"
proof (induction insts rule: rev_induct)
  case Nil
  then show ?case by simp
next
  case (snoc x insts)
  obtain cn ci where x: "x = (cn, ci)" by (cases x)
  show ?case
    using snoc by (auto simp: x storage_step_def pm_lookup_pm_set)
qed

lemma storage_step_others:
  "cfg_hub_inputs (fold storage_step insts cfg) = cfg_hub_inputs cfg \<and>
   cfg_hub_outputs (fold storage_step insts cfg) = cfg_hub_outputs cfg \<and>
   cfg_components (fold storage_step insts cfg) = cfg_components cfg"
  by (induction insts arbitrary: cfg) (auto simp: storage_step_def)

lemma raw_config_branches:
  "cfg_branches (raw_config g) = edge_branches g @ virtual_branches g"
  by (simp add: raw_config_def storage_step_branches fold_edge_step_branches
        edge_branches_def virtual_branches_def)

lemma raw_config_lookup:
  assumes "is_component_node g c"
  shows "pm_lookup (cfg_port_mappings (raw_config g)) c p =
     (if p = ''delta_soc'' \<and> (\<exists>ci. (c, ci) \<in> set (component_instances g) \<and> isinstance_Storage ci)
      then Some (virtual_branch_name c)
      else if filter (touches c p) (graph_edges g) = [] then None
      else Some (edge_branch (last (filter (touches c p) (graph_edges g)))))"
proof -
  have e: "pm_lookup [] c p = None" by (simp add: pm_lookup_def dict_get_def)
  show ?thesis
    unfolding raw_config_def storage_step_lookup fold_edge_step_lookup [OF assms]
    by (auto simp: e)
qed

lemma compile_config_port_mappings:
  "cfg_port_mappings (compile_config set_list g) = cfg_port_mappings (raw_config g)"
  by (simp add: compile_config_def Let_def)

lemma compile_config_branches:
  "enumeration set_list \<Longrightarrow>
   set (cfg_branches (compile_config set_list g)) = set (edge_branches g) \<union> set (virtual_branches g)"
  by (simp add: compile_config_def Let_def enumeration_def raw_config_branches)

lemma virtual_branch_name_inj:
  "virtual_branch_name a = virtual_branch_name b \<Longrightarrow> a = b"
  by (simp add: virtual_branch_name_def)

subsection \<open>Graphs built by the operations\<close>

lemma instantiate_class:
  "instantiate ty n args = Inr c \<Longrightarrow> class_name c = ty \<and> name c = n \<and> ty \<in> set component_types"
  unfolding instantiate_def component_types_def
  by (cases args) (auto split: if_splits)

lemma update_absent: "k \<notin> fst ` set al \<Longrightarrow> AList.update k v al = al @ [(k, v)]"
  by (induction al) auto

lemma update_member:
  "distinct (map fst al) \<Longrightarrow> (a, b) \<in> set (AList.update k v al) \<Longrightarrow>
   (a = k \<and> b = v) \<or> (a \<noteq> k \<and> (a, b) \<in> set al)"
  by (induction al) (auto split: if_splits simp: image_iff)

lemma dict_has_iff: "dict_has d k \<longleftrightarrow> k \<in> fst ` set d"
  by (simp add: dict_has_def dict_keys_def)

lemma dict_has_get: "dict_has d k \<longleftrightarrow> dict_get d k \<noteq> None"
  by (simp add: dict_has_def dict_keys_def dict_get_def map_of_eq_None_iff)

lemma wf_new: "wf_graph (new_graph_energy_hub n)"
  by (simp add: wf_graph_def new_graph_energy_hub_def is_component_node_def dict_get_def)

lemma wf_add_component:
  assumes "wf_graph g" and "add_component n ty params g = Inr g'"
  shows "wf_graph g'"
proof -
  from assms(2) obtain inst where fresh: "\<not> dict_has (g_nodes g) n"
    and i: "instantiate ty n params = Inr inst"
    and g': "g' = graph_add_node n ComponentNode
               (g\<lparr>component_init_args := dict_set n params (component_init_args g),
                  component_instances := dict_set n inst (component_instances g)\<rparr>)"
    by (auto simp: add_component_def split: if_splits sum.splits)
  have ci: "component_instances g' = AList.update n inst (component_instances g)"
    and ca: "component_init_args g' = AList.update n params (component_init_args g)"
    and gn: "g_nodes g' = AList.update n ComponentNode (g_nodes g)"
    using fresh by (simp_all add: g' graph_add_node_def dict_set_def)
  have comp: "\<And>m. is_component_node g' m \<longleftrightarrow> m = n \<or> is_component_node g m"
    using fresh
    by (auto simp: is_component_node_def dict_get_def gn update_conv' dict_has_get)
  from assms(1) have d: "distinct (map fst (component_instances g))"
    and w2: "\<And>cn c. (cn, c) \<in> set (component_instances g) \<Longrightarrow>
               is_component_node g cn \<and>
               (\<exists>args. dict_get (component_init_args g) cn = Some args \<and>
                       instantiate (class_name c) cn args = Inr c)"
    and w3: "\<And>m. is_component_node g m \<Longrightarrow> dict_has (component_instances g) m"
    by (auto simp: wf_graph_def)
  show ?thesis
    unfolding wf_graph_def
  proof (intro conjI ballI allI impI)
    show "distinct (map fst (component_instances g'))"
      by (simp add: ci distinct_update d)
  next
    fix x assume x: "x \<in> set (component_instances g')"
    obtain cn c where xc: "x = (cn, c)" by (cases x)
    from update_member [OF d] x have "(cn = n \<and> c = inst) \<or> (cn \<noteq> n \<and> (cn, c) \<in> set (component_instances g))"
      by (simp add: ci xc)
    then show "case x of (cn, c) \<Rightarrow> is_component_node g' cn \<and>
          (\<exists>args. dict_get (component_init_args g') cn = Some args \<and>
                  instantiate (class_name c) cn args = Inr c)"
    proof
      assume "cn = n \<and> c = inst"
      then show ?thesis
        using i instantiate_class [OF i]
        by (simp add: xc comp ca dict_get_def update_conv')
    next
      assume "cn \<noteq> n \<and> (cn, c) \<in> set (component_instances g)"
      then show ?thesis
        using w2 [of cn c] by (auto simp: xc comp ca dict_get_def update_conv')
    qed
  next
    fix m assume "is_component_node g' m"
    then have "m = n \<or> dict_has (component_instances g) m" using comp w3 by blast
    then show "dict_has (component_instances g') m"
      by (auto simp: dict_has_iff ci dom_update)
  qed
qed

lemma wf_add_io_node:
  assumes "wf_graph g" and "add_io_node n io_type g = Inr g'"
  shows "wf_graph g'"
proof -
  from assms(2) have fresh: "\<not> dict_has (g_nodes g) n"
    and g': "g' = (graph_add_node n (IoNode io_type) g)\<lparr>io_nodes := dict_set n io_type (io_nodes g)\<rparr>"
    by (auto simp: add_io_node_def split: if_splits)
  have ci: "component_instances g' = component_instances g"
    and ca: "component_init_args g' = component_init_args g"
    and gn: "g_nodes g' = AList.update n (IoNode io_type) (g_nodes g)"
    using fresh by (simp_all add: g' graph_add_node_def dict_set_def)
  have comp: "\<And>m. is_component_node g' m \<longleftrightarrow> is_component_node g m"
    using fresh
    by (auto simp: is_component_node_def dict_get_def gn update_conv' dict_has_get)
  show ?thesis
    using assms(1) by (simp add: wf_graph_def ci ca comp)
qed

lemma wf_connect:
  assumes "wf_graph g" and "connect fn fp tn tp g = Inr g'"
  shows "wf_graph g'"
proof -
  from assms(2) have g': "g' = graph_add_edge fn tn
      \<lparr>from_port = fp, to_port = tp, branch_name = make_branch_name fn fp tn tp\<rparr> g"
    by (auto simp: connect_def split: if_splits option.splits)
  have "component_instances g' = component_instances g"
    "component_init_args g' = component_init_args g"
    "\<And>m. is_component_node g' m \<longleftrightarrow> is_component_node g m"
    by (simp_all add: g' graph_add_edge_def is_component_node_def)
  then show ?thesis
    using assms(1) by (simp add: wf_graph_def)
qed

lemma wf_run_calls:
  "wf_graph g \<Longrightarrow> run_calls cs g = Inr g' \<Longrightarrow> wf_graph g'"
proof (induction cs arbitrary: g)
  case Nil
  then show ?case by simp
next
  case (Cons c cs)
  from Cons.prems(2) obtain g1 where a: "apply_call c g = Inr g1" and r: "run_calls cs g1 = Inr g'"
    by (auto split: sum.splits)
  have "wf_graph g1"
    using a Cons.prems(1)
    by (cases c) (auto intro: wf_add_component wf_add_io_node wf_connect)
  from Cons.IH [OF this r] show ?case .
qed

lemma wf_built:
  "run_calls cs (new_graph_energy_hub n) = Inr g \<Longrightarrow> wf_graph g"
  by (rule wf_run_calls [OF wf_new])

subsection \<open>Loading the compiled configuration\<close>

lemma load_components_instances:
  assumes "distinct (map fst insts)"
    and "\<forall>(cn, c) \<in> set insts. \<exists>a. dict_get args cn = Some a \<and> instantiate (class_name c) cn a = Inr c"
    and "fst ` set insts \<inter> fst ` set (components hub) = {}"
  shows "load_components
           (concat (map (\<lambda>(comp_name, comp_instance).
                           case dict_get args comp_name of
                             Some params \<Rightarrow> [(comp_name, class_name comp_instance, params)]
                           | None \<Rightarrow> []) insts)) hub
         = Inr (hub\<lparr>components := components hub @ insts\<rparr>)"
  using assms
proof (induction insts arbitrary: hub)
  case Nil
  then show ?case by simp
next
  case (Cons x insts)
  obtain cn c where x: "x = (cn, c)" by (cases x)
  from Cons.prems(2) obtain a where a: "dict_get args cn = Some a"
    and i: "instantiate (class_name c) cn a = Inr c"
    by (auto simp: x)
  note ic = instantiate_class [OF i]
  have fresh: "cn \<notin> fst ` set (components hub)" using Cons.prems(3) by (auto simp: x)
  let ?hub' = "hub\<lparr>components := components hub @ [(cn, c)]\<rparr>"
  have add: "hub_add_component c hub = Inr ?hub'"
    using fresh ic by (simp add: hub_add_component_def dict_has_iff dict_set_def update_absent)
  have "load_components
           (concat (map (\<lambda>(comp_name, comp_instance).
                           case dict_get args comp_name of
                             Some params \<Rightarrow> [(comp_name, class_name comp_instance, params)]
                           | None \<Rightarrow> []) insts)) ?hub'
         = Inr (?hub'\<lparr>components := components ?hub' @ insts\<rparr>)"
  proof (rule Cons.IH)
    show "distinct (map fst insts)" using Cons.prems(1) by simp
    show "\<forall>(cn, c) \<in> set insts. \<exists>a. dict_get args cn = Some a \<and> instantiate (class_name c) cn a = Inr c"
      using Cons.prems(2) by simp
    show "fst ` set insts \<inter> fst ` set (components ?hub') = {}"
      using Cons.prems(1,3) by (auto simp: x)
  qed
  then show ?case
    using ic by (simp add: x a i add)
qed

lemma index_fold_absent:
  "b \<notin> set bs \<Longrightarrow>
   map_of (fold (\<lambda>(i, n). AList.update n i) (enumerate k bs) d0) b = map_of d0 b"
  by (induction bs arbitrary: k d0) (auto simp: update_conv')

lemma index_fold_nth:
  "distinct bs \<Longrightarrow> i < length bs \<Longrightarrow>
   map_of (fold (\<lambda>(i, n). AList.update n i) (enumerate k bs) d0) (bs ! i) = Some (k + i)"
proof (induction bs arbitrary: k d0 i)
  case Nil
  then show ?case by simp
next
  case (Cons x xs)
  show ?case
  proof (cases i)
    case 0
    then show ?thesis
      using Cons.prems(1) by (simp add: index_fold_absent update_conv')
  next
    case (Suc j)
    then show ?thesis
      using Cons.prems Cons.IH [of j "Suc k"] by simp
  qed
qed

lemma branch_index_nth:
  "distinct bs \<Longrightarrow> i < length bs \<Longrightarrow> dict_get (branch_name_to_index bs) (bs ! i) = Some i"
  using index_fold_nth [of bs i 0 "[]"]
  by (simp add: branch_name_to_index_def dict_get_def dict_set_def)

lemma branch_index_absent:
  "b \<notin> set bs \<Longrightarrow> dict_get (branch_name_to_index bs) b = None"
  using index_fold_absent [of b bs 0 "[]"]
  by (simp add: branch_name_to_index_def dict_get_def dict_set_def)

lemma branch_index_Some:
  assumes "distinct bs"
  shows "dict_get (branch_name_to_index bs) b = Some i \<longleftrightarrow> i < length bs \<and> bs ! i = b"
proof (cases "b \<in> set bs")
  case True
  then obtain j where j: "j < length bs" "bs ! j = b" by (auto simp: in_set_conv_nth)
  have g: "dict_get (branch_name_to_index bs) b = Some j"
    using branch_index_nth [OF assms j(1)] j(2) by simp
  show ?thesis
  proof
    assume "dict_get (branch_name_to_index bs) b = Some i"
    then have "i = j" using g by simp
    then show "i < length bs \<and> bs ! i = b" using j by simp
  next
    assume a: "i < length bs \<and> bs ! i = b"
    then have "bs ! i = bs ! j" using j by simp
    then have "i = j" using nth_eq_iff_index_eq [OF assms, of i j] a j(1) by simp
    then show "dict_get (branch_name_to_index bs) b = Some i" using g by simp
  qed
next
  case False
  have "dict_get (branch_name_to_index bs) b = None" by (rule branch_index_absent [OF False])
  moreover have "\<not> (i < length bs \<and> bs ! i = b)" using False by auto
  ultimately show ?thesis by simp
qed

lemma load_ports_result:
  assumes "distinct (map fst d)" and "\<forall>(p, b) \<in> set d. dict_get idx b \<noteq> None"
  shows "\<exists>m'. load_ports idx c d m = Inr m' \<and>
           (\<forall>c' p'. dict_get m' (c', p') =
              (if c' = c then (case dict_get d p' of Some b \<Rightarrow> dict_get idx b
                                                 | None \<Rightarrow> dict_get m (c', p'))
               else dict_get m (c', p')))"
  using assms
proof (induction d arbitrary: m)
  case Nil
  then show ?case by (simp add: dict_get_def)
next
  case (Cons x d)
  obtain p b where x: "x = (p, b)" by (cases x)
  from Cons.prems(2) obtain i where i: "dict_get idx b = Some i" by (auto simp: x)
  have d: "distinct (map fst d)" and pn: "p \<notin> fst ` set d"
    using Cons.prems(1) by (auto simp: x)
  have r: "\<forall>(p, b) \<in> set d. dict_get idx b \<noteq> None" using Cons.prems(2) by simp
  from Cons.IH [OF d r, of "dict_set (c, p) i m"]
  obtain m' where m': "load_ports idx c d (dict_set (c, p) i m) = Inr m'"
    and l: "\<forall>c' p'. dict_get m' (c', p') =
              (if c' = c then (case dict_get d p' of Some b \<Rightarrow> dict_get idx b
                                 | None \<Rightarrow> dict_get (dict_set (c, p) i m) (c', p'))
               else dict_get (dict_set (c, p) i m) (c', p'))"
    by blast
  have pd: "dict_get d p = None"
    using pn by (simp add: dict_get_def map_of_eq_None_iff)
  show ?case
  proof (intro exI conjI allI)
    show "load_ports idx c (x # d) m = Inr m'" by (simp add: x i m')
  next
    fix c' p'
    show "dict_get m' (c', p') =
          (if c' = c then (case dict_get (x # d) p' of Some b \<Rightarrow> dict_get idx b
                             | None \<Rightarrow> dict_get m (c', p'))
           else dict_get m (c', p'))"
      using l [rule_format, of c' p'] pd i
      by (simp add: x dict_get_def dict_set_def update_conv' split: option.splits)
  qed
qed

lemma load_port_mappings_result:
  assumes "distinct (map fst pm)"
    and "\<forall>(c, d) \<in> set pm. distinct (map fst d) \<and> dict_has comps c \<and>
           (\<forall>(p, b) \<in> set d. dict_get idx b \<noteq> None)"
  shows "\<exists>m'. load_port_mappings comps idx pm m = Inr m' \<and>
           (\<forall>c p. dict_get m' (c, p) =
              (case pm_lookup pm c p of Some b \<Rightarrow> dict_get idx b | None \<Rightarrow> dict_get m (c, p)))"
  using assms
proof (induction pm arbitrary: m)
  case Nil
  then show ?case by (simp add: pm_lookup_def dict_get_def)
next
  case (Cons x pm)
  obtain c d where x: "x = (c, d)" by (cases x)
  have dd: "distinct (map fst d)" and hc: "dict_has comps c"
    and vd: "\<forall>(p, b) \<in> set d. dict_get idx b \<noteq> None"
    using Cons.prems(2) by (auto simp: x)
  from load_ports_result [OF dd vd, of c m]
  obtain m1 where m1: "load_ports idx c d m = Inr m1"
    and l1: "\<forall>c' p'. dict_get m1 (c', p') =
              (if c' = c then (case dict_get d p' of Some b \<Rightarrow> dict_get idx b
                                 | None \<Rightarrow> dict_get m (c', p'))
               else dict_get m (c', p'))"
    by blast
  have dp: "distinct (map fst pm)" and cn: "c \<notin> fst ` set pm"
    using Cons.prems(1) by (auto simp: x)
  have rp: "\<forall>(c, d) \<in> set pm. distinct (map fst d) \<and> dict_has comps c \<and>
           (\<forall>(p, b) \<in> set d. dict_get idx b \<noteq> None)"
    using Cons.prems(2) by simp
  from Cons.IH [OF dp rp, of m1]
  obtain m' where m': "load_port_mappings comps idx pm m1 = Inr m'"
    and l: "\<forall>c p. dict_get m' (c, p) =
              (case pm_lookup pm c p of Some b \<Rightarrow> dict_get idx b | None \<Rightarrow> dict_get m1 (c, p))"
    by blast
  have "map_of pm c = None" using cn by (simp add: map_of_eq_None_iff)
  then have pc: "\<And>p. pm_lookup pm c p = None"
    by (simp add: pm_lookup_def dict_get_def)
  show ?case
  proof (intro exI conjI allI)
    show "load_port_mappings comps idx (x # pm) m = Inr m'" by (simp add: x hc m1 m')
  next
    fix c' p
    show "dict_get m' (c', p) =
          (case pm_lookup (x # pm) c' p of Some b \<Rightarrow> dict_get idx b | None \<Rightarrow> dict_get m (c', p))"
    proof (cases "c' = c")
      case True
      then show ?thesis
        using l [rule_format, of c p] l1 [rule_format, of c p] pc [of p]
        by (simp add: x pm_lookup_def dict_get_def split: option.splits)
    next
      case False
      then show ?thesis
        using l [rule_format, of c' p] l1 [rule_format, of c' p]
        by (simp add: x pm_lookup_def dict_get_def split: option.splits)
    qed
  qed
qed

lemma load_indices_result:
  assumes "\<forall>b \<in> set bs. dict_get idx b \<noteq> None"
  shows "\<exists>is. load_indices err idx bs acc = Inr (acc @ is) \<and> length is = length bs \<and>
              (\<forall>i \<in> set is. \<exists>b \<in> set bs. dict_get idx b = Some i)"
  using assms
proof (induction bs arbitrary: acc)
  case Nil
  then show ?case by simp
next
  case (Cons b bs)
  from Cons.prems obtain i where i: "dict_get idx b = Some i" by auto
  have "\<forall>b \<in> set bs. dict_get idx b \<noteq> None" using Cons.prems by simp
  from Cons.IH [OF this, of "acc @ [i]"]
  obtain js where l: "load_indices err idx bs (acc @ [i]) = Inr ((acc @ [i]) @ js)"
    and n: "length js = length bs" and v: "\<forall>j \<in> set js. \<exists>b \<in> set bs. dict_get idx b = Some j"
    by blast
  have "load_indices err idx (b # bs) acc = Inr (acc @ (i # js))"
    using l i by simp
  moreover have "length (i # js) = length (b # bs)" using n by simp
  moreover have "\<forall>j \<in> set (i # js). \<exists>b' \<in> set (b # bs). dict_get idx b' = Some j"
    using v i by auto
  ultimately show ?case by blast
qed

subsection \<open>Compilation succeeds\<close>

lemma pm_set_ok:
  assumes "pm_ok K S pm" and "c \<in> K" and "b \<in> S"
  shows "pm_ok K S (pm_set c p b pm)"
proof -
  define d0 where "d0 = (case dict_get pm c of None \<Rightarrow> [] | Some d \<Rightarrow> d)"
  from assms(1) have dp: "distinct (map fst pm)"
    by (simp add: pm_ok_def)
  have ep: "\<And>c' d'. (c', d') \<in> set pm \<Longrightarrow> distinct (map fst d') \<and> c' \<in> K \<and> snd ` set d' \<subseteq> S"
    using assms(1) unfolding pm_ok_def by fast
  have d0: "distinct (map fst d0) \<and> snd ` set d0 \<subseteq> S"
  proof (cases "dict_get pm c")
    case None
    then show ?thesis by (simp add: d0_def)
  next
    case (Some d)
    then have "(c, d) \<in> set pm" by (simp add: dict_get_def map_of_SomeD)
    then show ?thesis using ep by (simp add: d0_def Some)
  qed
  let ?d = "AList.update p b d0"
  have nd: "distinct (map fst ?d) \<and> snd ` set ?d \<subseteq> S"
    using d0 update_values [of p b d0] assms(3) by (auto simp: distinct_update)
  have s: "pm_set c p b pm = AList.update c ?d pm"
    by (simp add: pm_set_def dict_set_def d0_def)
  show ?thesis
    unfolding pm_ok_def s
  proof (intro conjI ballI)
    show "distinct (map fst (AList.update c ?d pm))" by (simp add: distinct_update dp)
  next
    fix x assume x: "x \<in> set (AList.update c ?d pm)"
    obtain c' d' where xc: "x = (c', d')" by (cases x)
    from update_member [OF dp] x have "(c' = c \<and> d' = ?d) \<or> (c' \<noteq> c \<and> (c', d') \<in> set pm)"
      by (simp add: xc)
    then show "case x of (c, d) \<Rightarrow> distinct (map fst d) \<and> c \<in> K \<and> snd ` set d \<subseteq> S"
      using nd assms(2) ep by (auto simp: xc)
  qed
qed

lemma edge_step_ok:
  assumes "pm_ok K S (cfg_port_mappings cfg)" and "edge_branch e \<in> S"
    and "\<And>n. is_component_node g n \<Longrightarrow> n \<in> K"
  shows "pm_ok K S (cfg_port_mappings (edge_step g e cfg))"
proof -
  obtain u v d where e: "e = (u, v, d)" by (cases e)
  have b: "branch_name d \<in> S" using assms(2) by (simp add: e edge_branch_def)
  show ?thesis
    using assms(1,3) b by (auto simp: e edge_step_def Let_def intro!: pm_set_ok)
qed

lemma fold_edge_step_ok:
  assumes "\<And>n. is_component_node g n \<Longrightarrow> n \<in> K"
  shows "pm_ok K S (cfg_port_mappings cfg) \<Longrightarrow> edge_branch ` set es \<subseteq> S \<Longrightarrow>
         pm_ok K S (cfg_port_mappings (fold (edge_step g) es cfg))"
proof (induction es arbitrary: cfg)
  case Nil
  then show ?case by simp
next
  case (Cons e es)
  have "pm_ok K S (cfg_port_mappings (edge_step g e cfg))"
    using Cons.prems assms by (intro edge_step_ok) auto
  then show ?case using Cons.IH Cons.prems(2) by simp
qed

lemma fold_storage_step_ok:
  "pm_ok K S (cfg_port_mappings cfg) \<Longrightarrow> fst ` set insts \<subseteq> K \<Longrightarrow>
   (\<lambda>(cn, c). virtual_branch_name cn) ` set insts \<subseteq> S \<Longrightarrow>
   pm_ok K S (cfg_port_mappings (fold storage_step insts cfg))"
proof (induction insts arbitrary: cfg)
  case Nil
  then show ?case by simp
next
  case (Cons x insts)
  obtain cn c where x: "x = (cn, c)" by (cases x)
  have "pm_ok K S (cfg_port_mappings (storage_step x cfg))"
    using Cons.prems by (auto simp: x storage_step_def intro!: pm_set_ok)
  then show ?case using Cons.IH Cons.prems(2,3) by simp
qed

lemma edge_step_io:
  "set (cfg_hub_inputs (edge_step g e cfg)) \<subseteq> insert (edge_branch e) (set (cfg_hub_inputs cfg)) \<and>
   set (cfg_hub_outputs (edge_step g e cfg)) \<subseteq> insert (edge_branch e) (set (cfg_hub_outputs cfg)) \<and>
   cfg_components (edge_step g e cfg) = cfg_components cfg"
  by (cases e) (auto simp: edge_step_def Let_def edge_branch_def)

lemma fold_edge_step_io:
  "set (cfg_hub_inputs (fold (edge_step g) es cfg)) \<subseteq> set (cfg_hub_inputs cfg) \<union> edge_branch ` set es \<and>
   set (cfg_hub_outputs (fold (edge_step g) es cfg)) \<subseteq> set (cfg_hub_outputs cfg) \<union> edge_branch ` set es \<and>
   cfg_components (fold (edge_step g) es cfg) = cfg_components cfg"
proof (induction es arbitrary: cfg)
  case Nil
  then show ?case by simp
next
  case (Cons e es)
  show ?case
    using Cons.IH [of "edge_step g e cfg"] edge_step_io [of g e cfg] by auto
qed

lemma raw_config_io:
  "set (cfg_hub_inputs (raw_config g)) \<subseteq> set (edge_branches g) \<and>
   set (cfg_hub_outputs (raw_config g)) \<subseteq> set (edge_branches g) \<and>
   cfg_components (raw_config g) = config_components g"
  using fold_edge_step_io [of g "graph_edges g"
      "\<lparr>cfg_components = config_components g, cfg_branches = [], cfg_port_mappings = [],
        cfg_hub_inputs = [], cfg_hub_outputs = []\<rparr>"]
  by (simp add: raw_config_def storage_step_others edge_branches_def)

lemma raw_config_pm_ok:
  assumes "wf_graph g"
  shows "pm_ok (fst ` set (component_instances g))
           (set (edge_branches g) \<union> set (virtual_branches g))
           (cfg_port_mappings (raw_config g))"
proof -
  let ?K = "fst ` set (component_instances g)"
  let ?S = "set (edge_branches g) \<union> set (virtual_branches g)"
  let ?S' = "set (edge_branches g) \<union> (\<lambda>(cn, c). virtual_branch_name cn) ` set (component_instances g)"
  have k: "\<And>n. is_component_node g n \<Longrightarrow> n \<in> ?K"
    using assms by (simp add: wf_graph_def dict_has_iff)
  have 0: "pm_ok ?K ?S' []" by (simp add: pm_ok_def)
  have 1: "pm_ok ?K ?S' (cfg_port_mappings (fold (edge_step g) (graph_edges g)
             \<lparr>cfg_components = config_components g, cfg_branches = [], cfg_port_mappings = [],
              cfg_hub_inputs = [], cfg_hub_outputs = []\<rparr>))"
  proof (rule fold_edge_step_ok [OF k])
    show "pm_ok ?K ?S' (cfg_port_mappings
             \<lparr>cfg_components = config_components g, cfg_branches = [], cfg_port_mappings = [],
              cfg_hub_inputs = [], cfg_hub_outputs = []\<rparr>)"
      by (simp add: pm_ok_def)
    show "edge_branch ` set (graph_edges g) \<subseteq> ?S'"
      by (auto simp: edge_branches_def)
  qed
  have 2: "pm_ok ?K ?S' (cfg_port_mappings (raw_config g))"
    unfolding raw_config_def by (rule fold_storage_step_ok [OF 1]) auto
  show ?thesis
    unfolding pm_ok_def
  proof (intro conjI ballI)
    show "distinct (map fst (cfg_port_mappings (raw_config g)))" using 2 by (simp add: pm_ok_def)
  next
    fix x assume x: "x \<in> set (cfg_port_mappings (raw_config g))"
    obtain c d where xc: "x = (c, d)" by (cases x)
    have dk: "distinct (map fst (cfg_port_mappings (raw_config g)))"
      and dd: "distinct (map fst d)" and ck: "c \<in> ?K"
      using 2 x by (auto simp: pm_ok_def xc)
    have cn: "is_component_node g c"
      using ck assms by (auto simp: wf_graph_def)
    have "snd ` set d \<subseteq> ?S"
    proof
      fix b assume "b \<in> snd ` set d"
      then obtain p where pb: "(p, b) \<in> set d" by auto
      have "map_of (cfg_port_mappings (raw_config g)) c = Some d"
        using dk x by (simp add: xc)
      moreover have "map_of d p = Some b" using dd pb by simp
      ultimately have "pm_lookup (cfg_port_mappings (raw_config g)) c p = Some b"
        by (simp add: pm_lookup_def dict_get_def)
      then have "b = virtual_branch_name c \<and> (\<exists>ci. (c, ci) \<in> set (component_instances g) \<and> isinstance_Storage ci)
                 \<or> (filter (touches c p) (graph_edges g) \<noteq> [] \<and>
                     b = edge_branch (last (filter (touches c p) (graph_edges g))))"
        unfolding raw_config_lookup [OF cn] by (auto split: if_splits)
      then show "b \<in> ?S"
      proof
        assume "b = virtual_branch_name c \<and> (\<exists>ci. (c, ci) \<in> set (component_instances g) \<and> isinstance_Storage ci)"
        then show ?thesis by (force simp: virtual_branches_def)
      next
        assume a: "filter (touches c p) (graph_edges g) \<noteq> [] \<and>
                   b = edge_branch (last (filter (touches c p) (graph_edges g)))"
        then have "last (filter (touches c p) (graph_edges g)) \<in> set (filter (touches c p) (graph_edges g))"
          by (intro last_in_set) simp
        then have "last (filter (touches c p) (graph_edges g)) \<in> set (graph_edges g)" by simp
        then show ?thesis using a by (simp add: edge_branches_def)
      qed
    qed
    then show "case x of (c, d) \<Rightarrow> distinct (map fst d) \<and> c \<in> ?K \<and> snd ` set d \<subseteq> ?S"
      using dd ck by (simp add: xc)
  qed
qed

lemma config_components_wf:
  assumes "wf_graph g"
  shows "load_components (config_components g) (new_energy_hub nm)
         = Inr ((new_energy_hub nm)\<lparr>components := component_instances g\<rparr>)"
proof -
  have "load_components (config_components g) (new_energy_hub nm)
        = Inr ((new_energy_hub nm)\<lparr>components := components (new_energy_hub nm) @ component_instances g\<rparr>)"
    unfolding config_components_def
  proof (rule load_components_instances)
    show "distinct (map fst (component_instances g))" using assms by (simp add: wf_graph_def)
    show "\<forall>(cn, c) \<in> set (component_instances g).
            \<exists>a. dict_get (component_init_args g) cn = Some a \<and> instantiate (class_name c) cn a = Inr c"
      using assms unfolding wf_graph_def by fast
    show "fst ` set (component_instances g) \<inter> fst ` set (components (new_energy_hub nm)) = {}"
      by (simp add: new_energy_hub_def)
  qed
  then show ?thesis by (simp add: new_energy_hub_def)
qed

lemma compiled_loads:
  fixes g :: "'a graph_energy_hub"
  assumes "wf_graph g" and "enumeration set_list"
    and "edge_branches g @ virtual_branches g \<noteq> []"
  shows "\<exists>hub. load_config (compile_config set_list g) (new_energy_hub nm) = Inr hub \<and>
           components hub = component_instances g \<and>
           global_branches hub = cfg_branches (compile_config set_list g) \<and>
           (\<forall>c p. dict_get (port_to_global_branch_map hub) (c, p) =
              (case pm_lookup (cfg_port_mappings (raw_config g)) c p of
                 Some b \<Rightarrow> dict_get (branch_name_to_index (cfg_branches (compile_config set_list g))) b
               | None \<Rightarrow> None)) \<and>
           (\<forall>i \<in> set (hub_input_branch_indices hub). i < length (global_branches hub)) \<and>
           (\<forall>i \<in> set (hub_output_branch_indices hub). i < length (global_branches hub))"
proof -
  let ?cfg = "compile_config set_list g"
  let ?bs = "cfg_branches ?cfg"
  let ?idx = "branch_name_to_index ?bs"
  let ?pm = "cfg_port_mappings (raw_config g)"
  let ?S = "set (edge_branches g) \<union> set (virtual_branches g)"
  let ?hub1 = "(new_energy_hub nm :: 'a energy_hub)\<lparr>components := component_instances g\<rparr>"
  have bs: "sorted ?bs" "distinct ?bs" and sbs: "set ?bs = ?S"
    using sorted_compiled_branches [OF assms(2), of g] compile_config_branches [OF assms(2), of g]
    by simp_all
  have ne: "?bs \<noteq> []" using sbs assms(3) by auto
  have idx: "\<And>b. b \<in> ?S \<Longrightarrow> dict_get ?idx b \<noteq> None"
  proof -
    fix b assume "b \<in> ?S"
    then obtain i where "i < length ?bs" "?bs ! i = b" using sbs by (metis in_set_conv_nth)
    then show "dict_get ?idx b \<noteq> None" using branch_index_Some [OF bs(2), of b i] by simp
  qed
  have idxb: "\<And>b i. dict_get ?idx b = Some i \<Longrightarrow> i < length ?bs"
    using branch_index_Some [OF bs(2)] by simp
  have cc: "cfg_components ?cfg = config_components g"
    and cp: "cfg_port_mappings ?cfg = ?pm"
    and ci: "set (cfg_hub_inputs ?cfg) \<subseteq> ?S" and co: "set (cfg_hub_outputs ?cfg) \<subseteq> ?S"
    using raw_config_io [of g] assms(2)
    by (auto simp: compile_config_def Let_def enumeration_def)
  note ok = raw_config_pm_ok [OF assms(1)]
  have pmd: "distinct (map fst ?pm)" using ok by (simp add: pm_ok_def)
  have pme: "\<forall>(c, d) \<in> set ?pm. distinct (map fst d) \<and> dict_has (component_instances g) c \<and>
               (\<forall>(p, b) \<in> set d. dict_get ?idx b \<noteq> None)"
  proof (intro ballI)
    fix x assume x: "x \<in> set ?pm"
    obtain c d where xc: "x = (c, d)" by (cases x)
    have "distinct (map fst d)" "c \<in> fst ` set (component_instances g)" "snd ` set d \<subseteq> ?S"
      using ok x unfolding pm_ok_def xc by fast+
    then show "case x of (c, d) \<Rightarrow> distinct (map fst d) \<and> dict_has (component_instances g) c \<and>
               (\<forall>(p, b) \<in> set d. dict_get ?idx b \<noteq> None)"
      using idx by (auto simp: xc dict_has_iff)
  qed
  from load_port_mappings_result [OF pmd pme, of "[]"]
  obtain m where m: "load_port_mappings (component_instances g) ?idx ?pm [] = Inr m"
    and ml: "\<forall>c p. dict_get m (c, p) =
              (case pm_lookup ?pm c p of Some b \<Rightarrow> dict_get ?idx b | None \<Rightarrow> dict_get [] (c, p))"
    by blast
  have "\<forall>b \<in> set (cfg_hub_inputs ?cfg). dict_get ?idx b \<noteq> None" using ci idx by blast
  from load_indices_result [OF this, of UnknownHubInput "[]"]
  obtain ins where ins: "load_indices UnknownHubInput ?idx (cfg_hub_inputs ?cfg) [] = Inr ins"
    and insb: "\<forall>i \<in> set ins. \<exists>b \<in> set (cfg_hub_inputs ?cfg). dict_get ?idx b = Some i"
    by auto
  have "\<forall>b \<in> set (cfg_hub_outputs ?cfg). dict_get ?idx b \<noteq> None" using co idx by blast
  from load_indices_result [OF this, of UnknownHubOutput "[]"]
  obtain outs where outs: "load_indices UnknownHubOutput ?idx (cfg_hub_outputs ?cfg) [] = Inr outs"
    and outsb: "\<forall>i \<in> set outs. \<exists>b \<in> set (cfg_hub_outputs ?cfg). dict_get ?idx b = Some i"
    by auto
  let ?hub = "?hub1\<lparr>global_branches := ?bs, port_to_global_branch_map := m,
                     hub_input_branch_indices := ins, hub_output_branch_indices := outs\<rparr>"
  have h1: "components ?hub1 = component_instances g" "port_to_global_branch_map ?hub1 = []"
    "hub_input_branch_indices ?hub1 = []" "hub_output_branch_indices ?hub1 = []"
    by (simp_all add: new_energy_hub_def)
  have l: "load_config ?cfg (new_energy_hub nm) = Inr ?hub"
    unfolding load_config_def cc config_components_wf [OF assms(1)]
    by (simp add: ne Let_def cp h1 m ins outs)
  have "\<forall>c p. dict_get (port_to_global_branch_map ?hub) (c, p) =
              (case pm_lookup ?pm c p of Some b \<Rightarrow> dict_get ?idx b | None \<Rightarrow> None)"
  proof (intro allI)
    fix c p
    have "dict_get ([] :: (string \<times> string, nat) dict) (c, p) = None" by (simp add: dict_get_def)
    then show "dict_get (port_to_global_branch_map ?hub) (c, p) =
              (case pm_lookup ?pm c p of Some b \<Rightarrow> dict_get ?idx b | None \<Rightarrow> None)"
      using ml [rule_format, of c p] by (simp split: option.splits)
  qed
  moreover have "\<forall>i \<in> set (hub_input_branch_indices ?hub). i < length (global_branches ?hub)"
    using insb idxb by auto
  moreover have "\<forall>i \<in> set (hub_output_branch_indices ?hub). i < length (global_branches ?hub)"
    using outsb idxb by auto
  moreover have "components ?hub = component_instances g" "global_branches ?hub = ?bs"
    by (simp_all add: new_energy_hub_def)
  ultimately show ?thesis using l by blast
qed

lemma build_Z_blocks_succeeds:
  fixes hub :: "('a::field) energy_hub"
  assumes "\<forall>(cn, c) \<in> set cs. bound_ports hub cn (input_ports c) \<and> bound_ports hub cn (output_ports c)"
  shows "\<exists>Zs. build_Z_blocks hub cs = Inr Zs"
  using assms
proof (induction cs)
  case Nil
  then show ?case by simp
next
  case (Cons x cs)
  obtain cn c where x: "x = (cn, c)" by (cases x)
  have bi: "bound_ports hub cn (input_ports c)" and bo: "bound_ports hub cn (output_ports c)"
    using Cons.prems by (simp_all add: x)
  from Ag_global_rows [OF bi bo] obtain A where a: "build_Ag_global hub cn c = Inr A"
    and ra: "rows A = cols (get_characteristic_matrix c)" by blast
  obtain Zg where m: "mat_mul (get_characteristic_matrix c) A = Inr Zg"
    using mat_mul_defined [of "get_characteristic_matrix c" A] ra by auto
  have "\<exists>Zs. build_Z_blocks hub cs = Inr Zs" using Cons by simp
  then show ?case by (auto simp: x a m)
qed

lemma place_indicators_succeeds:
  "\<forall>b \<in> set bs. b < cols M \<Longrightarrow> i + length bs \<le> rows M \<Longrightarrow>
   \<exists>M'. place_indicators i bs M = Inr M'"
proof (induction bs arbitrary: i M)
  case Nil
  then show ?case by simp
next
  case (Cons b bs)
  obtain M1 where s: "set_entry M i b 1 = Inr M1"
    using Cons.prems by (simp add: set_entry_def)
  note sh = set_entry_shape [OF s]
  have "\<exists>M'. place_indicators (Suc i) bs M1 = Inr M'"
    using Cons.prems sh by (intro Cons.IH) simp_all
  then show ?case by (simp add: s)
qed

lemma system_matrices_succeeds:
  fixes hub :: "('a::field) energy_hub"
  assumes "0 < length (global_branches hub)"
    and "\<forall>(cn, c) \<in> set (components hub).
           bound_ports hub cn (input_ports c) \<and> bound_ports hub cn (output_ports c)"
    and "\<forall>i \<in> set (hub_input_branch_indices hub). i < length (global_branches hub)"
    and "\<forall>i \<in> set (hub_output_branch_indices hub). i < length (global_branches hub)"
  shows "\<exists>hub'. build_system_matrices hub = Inr hub'"
proof -
  let ?B = "length (global_branches hub)"
  from build_Z_blocks_succeeds [OF assms(2)] obtain Zs
    where zb: "build_Z_blocks hub (components hub) = Inr Zs" by blast
  have "\<exists>Z. (if Zs = [] then Inr (zeros 0 ?B) else vstack Zs) = Inr Z"
  proof (cases "Zs = []")
    case True
    then show ?thesis by simp
  next
    case False
    with vstack_shape [of Zs ?B] build_Z_blocks_shape [OF zb] show ?thesis by auto
  qed
  then obtain Z :: "'a matrix" where z: "(if Zs = [] then Inr (zeros 0 ?B) else vstack Zs) = Inr Z"
    by blast
  obtain X :: "'a matrix" where x: "place_indicators 0 (hub_input_branch_indices hub)
      (zeros (length (hub_input_branch_indices hub)) ?B) = Inr X"
    using place_indicators_succeeds [of "hub_input_branch_indices hub"
        "zeros (length (hub_input_branch_indices hub)) ?B :: 'a matrix" 0] assms(3)
    by (auto simp: zeros_def)
  obtain Y :: "'a matrix" where y: "place_indicators 0 (hub_output_branch_indices hub)
      (zeros (length (hub_output_branch_indices hub)) ?B) = Inr Y"
    using place_indicators_succeeds [of "hub_output_branch_indices hub"
        "zeros (length (hub_output_branch_indices hub)) ?B :: 'a matrix" 0] assms(4)
    by (auto simp: zeros_def)
  have "system_matrices hub = Inr (X, Y, Z)"
    using assms(1) z by (simp add: system_matrices_def Let_def zb x y)
  then show ?thesis by (simp add: build_system_matrices_def)
qed

lemma raw_lookup_branch:
  assumes "wf_graph g" and "pm_lookup (cfg_port_mappings (raw_config g)) c p = Some b"
  shows "b \<in> set (edge_branches g) \<union> set (virtual_branches g)"
proof -
  from assms(2) obtain d where d: "map_of (cfg_port_mappings (raw_config g)) c = Some d"
    and b: "map_of d p = Some b"
    by (auto simp: pm_lookup_def dict_get_def split: option.splits)
  have cd: "(c, d) \<in> set (cfg_port_mappings (raw_config g))" using d by (rule map_of_SomeD)
  have pb: "(p, b) \<in> set d" using b by (rule map_of_SomeD)
  have "\<forall>x \<in> set (cfg_port_mappings (raw_config g)). case x of (c, d) \<Rightarrow>
          distinct (map fst d) \<and> c \<in> fst ` set (component_instances g) \<and>
          snd ` set d \<subseteq> set (edge_branches g) \<union> set (virtual_branches g)"
    using raw_config_pm_ok [OF assms(1)] by (simp add: pm_ok_def)
  from bspec [OF this cd] have "snd ` set d \<subseteq> set (edge_branches g) \<union> set (virtual_branches g)"
    by simp
  moreover have "b \<in> snd ` set d" using pb by force
  ultimately show ?thesis by blast
qed

lemma build_load:
  assumes "build set_list g = Inr hub"
  shows "\<exists>hub0. load_config (compile_config set_list g) (new_energy_hub (g_name g)) = Inr hub0 \<and>
           build_system_matrices hub0 = Inr hub \<and>
           cfg_branches (compile_config set_list g) \<noteq> []"
  using assms
  by (auto simp: build_def load_config_def split: sum.splits if_splits)

lemma compiled_nonempty:
  assumes "enumeration set_list" and "cfg_branches (compile_config set_list g) \<noteq> []"
  shows "edge_branches g @ virtual_branches g \<noteq> []"
proof -
  have "set (cfg_branches (compile_config set_list g)) \<noteq> {}" using assms(2) by simp
  then show ?thesis
    using compile_config_branches [OF assms(1), of g] by auto
qed

lemma build_binding:
  fixes g :: "('a::field) graph_energy_hub"
  assumes "wf_graph g" and "enumeration set_list" and "build set_list g = Inr hub"
  shows "components hub = component_instances g \<and>
         global_branches hub = cfg_branches (compile_config set_list g) \<and>
         (\<forall>c p. dict_get (port_to_global_branch_map hub) (c, p) =
            (case pm_lookup (cfg_port_mappings (raw_config g)) c p of
               Some b \<Rightarrow> dict_get (branch_name_to_index (global_branches hub)) b
             | None \<Rightarrow> None))"
proof -
  from build_load [OF assms(3)] obtain hub0
    where l: "load_config (compile_config set_list g) (new_energy_hub (g_name g)) = Inr hub0"
      and b: "build_system_matrices hub0 = Inr hub"
      and n: "cfg_branches (compile_config set_list g) \<noteq> []" by blast
  from compiled_loads [OF assms(1,2) compiled_nonempty [OF assms(2) n], of "g_name g"] l
  have "components hub0 = component_instances g"
    and "global_branches hub0 = cfg_branches (compile_config set_list g)"
    and "\<forall>c p. dict_get (port_to_global_branch_map hub0) (c, p) =
            (case pm_lookup (cfg_port_mappings (raw_config g)) c p of
               Some b \<Rightarrow> dict_get (branch_name_to_index (cfg_branches (compile_config set_list g))) b
             | None \<Rightarrow> None)"
    by auto
  moreover have "global_branches hub = global_branches hub0"
    "components hub = components hub0"
    "port_to_global_branch_map hub = port_to_global_branch_map hub0"
    using build_system_matrices_fields [OF b] by simp_all
  ultimately show ?thesis by (simp only:) simp
qed

lemma build_bound:
  fixes g :: "('a::field) graph_energy_hub"
  assumes "wf_graph g" and "enumeration set_list" and "build set_list g = Inr hub"
    and "pm_lookup (cfg_port_mappings (raw_config g)) c p = Some b"
  shows "\<exists>i. dict_get (port_to_global_branch_map hub) (c, p) = Some i \<and>
              i < length (global_branches hub) \<and> global_branches hub ! i = b"
proof -
  note bb = build_binding [OF assms(1-3)]
  have gb: "global_branches hub = cfg_branches (compile_config set_list g)" using bb by simp
  have d: "distinct (global_branches hub)"
    using sorted_compiled_branches [OF assms(2), of g] gb by simp
  have "b \<in> set (global_branches hub)"
    using raw_lookup_branch [OF assms(1,4)] compile_config_branches [OF assms(2), of g] gb by simp
  then obtain i where i: "i < length (global_branches hub)" "global_branches hub ! i = b"
    by (metis in_set_conv_nth)
  then have "dict_get (branch_name_to_index (global_branches hub)) b = Some i"
    using branch_index_Some [OF d, of b i] by simp
  then have "dict_get (port_to_global_branch_map hub) (c, p) = Some i"
    using bb assms(4) by simp
  then show ?thesis using i by blast
qed

lemma build_succeeds:
  fixes g :: "('a::field) graph_energy_hub"
  assumes "wf_graph g" and "enumeration set_list" and "covered g" and "graph_edges g \<noteq> []"
  shows "\<exists>hub. build set_list g = Inr hub"
proof -
  have ne: "edge_branches g @ virtual_branches g \<noteq> []"
    using assms(4) by (simp add: edge_branches_def)
  from compiled_loads [OF assms(1,2) ne, of "g_name g"]
  obtain hub0 where l: "load_config (compile_config set_list g) (new_energy_hub (g_name g)) = Inr hub0"
    and c: "components hub0 = component_instances g"
    and gb: "global_branches hub0 = cfg_branches (compile_config set_list g)"
    and pm: "\<forall>c p. dict_get (port_to_global_branch_map hub0) (c, p) =
              (case pm_lookup (cfg_port_mappings (raw_config g)) c p of
                 Some b \<Rightarrow> dict_get (branch_name_to_index (cfg_branches (compile_config set_list g))) b
               | None \<Rightarrow> None)"
    and ib: "\<forall>i \<in> set (hub_input_branch_indices hub0). i < length (global_branches hub0)"
    and ob: "\<forall>i \<in> set (hub_output_branch_indices hub0). i < length (global_branches hub0)"
    by blast
  let ?bs = "cfg_branches (compile_config set_list g)"
  have d: "distinct ?bs" using sorted_compiled_branches [OF assms(2), of g] by simp
  have sbs: "set ?bs = set (edge_branches g) \<union> set (virtual_branches g)"
    by (rule compile_config_branches [OF assms(2)])
  have B: "0 < length (global_branches hub0)"
    using ne sbs gb by (cases ?bs) auto
  have port: "\<And>cn c p i. (cn, c) \<in> set (component_instances g) \<Longrightarrow>
                (p, i) \<in> set (input_ports c) \<union> set (output_ports c) \<Longrightarrow>
                \<exists>j. dict_get (port_to_global_branch_map hub0) (cn, p) = Some j \<and>
                     j < length (global_branches hub0)"
  proof -
    fix cn c p i
    assume m: "(cn, c) \<in> set (component_instances g)"
      and p: "(p, i) \<in> set (input_ports c) \<union> set (output_ports c)"
    have cnode: "is_component_node g cn" using assms(1) m unfolding wf_graph_def by fast
    have cov: "(p = ''delta_soc'' \<and> isinstance_Storage c) \<or>
               filter (touches cn p) (graph_edges g) \<noteq> []"
      using assms(3) m p unfolding covered_def by fast
    have "\<exists>b. pm_lookup (cfg_port_mappings (raw_config g)) cn p = Some b"
      using cov m unfolding raw_config_lookup [OF cnode] by auto
    then obtain b where b: "pm_lookup (cfg_port_mappings (raw_config g)) cn p = Some b" by blast
    have "b \<in> set ?bs" using raw_lookup_branch [OF assms(1) b] sbs by simp
    then obtain j where j: "j < length ?bs" "?bs ! j = b" by (metis in_set_conv_nth)
    then have "dict_get (branch_name_to_index ?bs) b = Some j"
      using branch_index_Some [OF d, of b j] by simp
    then show "\<exists>j. dict_get (port_to_global_branch_map hub0) (cn, p) = Some j \<and>
                     j < length (global_branches hub0)"
      using pm b j gb by simp
  qed
  have bound: "\<forall>(cn, c) \<in> set (components hub0).
                 bound_ports hub0 cn (input_ports c) \<and> bound_ports hub0 cn (output_ports c)"
  proof (intro ballI)
    fix x assume x: "x \<in> set (components hub0)"
    obtain cn c where xc: "x = (cn, c)" by (cases x)
    have m: "(cn, c) \<in> set (component_instances g)" using x c by (simp add: xc)
    have "bound_ports hub0 cn (input_ports c)"
      unfolding bound_ports_def list_all_iff
    proof (intro ballI)
      fix y assume y: "y \<in> set (input_ports c)"
      obtain p i where yp: "y = (p, i)" by (cases y)
      from port [OF m, of p i] y
      show "case y of (p, i) \<Rightarrow>
              (case dict_get (port_to_global_branch_map hub0) (cn, p) of None \<Rightarrow> False
               | Some b \<Rightarrow> b < length (global_branches hub0))"
        by (auto simp: yp)
    qed
    moreover have "bound_ports hub0 cn (output_ports c)"
      unfolding bound_ports_def list_all_iff
    proof (intro ballI)
      fix y assume y: "y \<in> set (output_ports c)"
      obtain p i where yp: "y = (p, i)" by (cases y)
      from port [OF m, of p i] y
      show "case y of (p, i) \<Rightarrow>
              (case dict_get (port_to_global_branch_map hub0) (cn, p) of None \<Rightarrow> False
               | Some b \<Rightarrow> b < length (global_branches hub0))"
        by (auto simp: yp)
    qed
    ultimately show "case x of (cn, c) \<Rightarrow>
        bound_ports hub0 cn (input_ports c) \<and> bound_ports hub0 cn (output_ports c)"
      by (simp add: xc)
  qed
  from system_matrices_succeeds [OF B bound ib ob]
  show ?thesis by (simp add: build_def l)
qed

subsection \<open>The virtual branch of a storage unit\<close>

lemma storage_virtual_member:
  "(cn, c) \<in> set (component_instances g) \<Longrightarrow> isinstance_Storage c \<Longrightarrow>
   virtual_branch_name cn \<in> set (virtual_branches g)"
  by (force simp: virtual_branches_def)

lemma distinct_count_one: "distinct xs \<Longrightarrow> x \<in> set xs \<Longrightarrow> count_list xs x = 1"
  by (induction xs) auto

lemma storage_graph_built:
  "run_calls storage_calls (new_graph_energy_hub ''StorageGraph'') = Inr storage_graph"
  by code_simp

lemma storage_graph_facts:
  "(''Storage1'', Storage ''Storage1'' (95 / 100) (9 / 10)) \<in> set (component_instances storage_graph) \<and>
   isinstance_Storage (Storage ''Storage1'' (95 / 100) (9 / 10 :: rat)) \<and>
   virtual_branch_name ''Storage1'' \<notin> set (edge_branches storage_graph) \<and>
   edge_branches storage_graph =
     [''Storage1_energy_out_to_ElecLoad_in'', ''GasInput_out_to_Storage1_energy_in''] \<and>
   virtual_branches storage_graph = [''Storage1_delta_soc_branch'']"
  by code_simp

lemma storage_graph_builds:
  "(case build remdups storage_graph of Inl e \<Rightarrow> False | Inr hub \<Rightarrow>
      global_branches hub = [''GasInput_out_to_Storage1_energy_in'', ''Storage1_delta_soc_branch'',
                             ''Storage1_energy_out_to_ElecLoad_in''])"
  by code_simp

text \<open>
  C6, as amended. For every graph reached by the builder's calls and every storage
  component \<open>cn\<close> in it, whether or not an edge touches the port \<open>delta_soc\<close>:
  the virtual branch is named \<open>cn_delta_soc_branch\<close>, it occurs exactly once in the
  compiled branch list, and the port \<open>delta_soc\<close> of \<open>cn\<close> is bound to it, both in the
  compiled configuration and, by index, in every hub that \<open>build\<close> returns. It is a
  branch in addition to the branches of the edges (and of the other storage units)
  provided no edge carries the same branch name.
\<close>

theorem storage_virtual_branch:
  fixes g :: "('a::field) graph_energy_hub"
  assumes "run_calls calls (new_graph_energy_hub nm) = Inr g"
    and "enumeration set_list"
    and "(cn, c) \<in> set (component_instances g)" and "isinstance_Storage c"
  shows "virtual_branch_name cn = cn @ ''_delta_soc_branch'' \<and>
         count_list (cfg_branches (compile_config set_list g)) (virtual_branch_name cn) = 1 \<and>
         pm_lookup (cfg_port_mappings (compile_config set_list g)) cn ''delta_soc''
           = Some (virtual_branch_name cn) \<and>
         (virtual_branch_name cn \<notin> set (edge_branches g) \<longrightarrow>
            length (cfg_branches (compile_config set_list g)) =
              card (set (edge_branches g) \<union> (set (virtual_branches g) - {virtual_branch_name cn})) + 1) \<and>
         (\<forall>hub. build set_list g = Inr hub \<longrightarrow>
            (\<exists>i. dict_get (port_to_global_branch_map hub) (cn, ''delta_soc'') = Some i \<and>
                 i < length (global_branches hub) \<and>
                 global_branches hub ! i = virtual_branch_name cn))"
proof -
  let ?bs = "cfg_branches (compile_config set_list g)"
  let ?v = "virtual_branch_name cn"
  have wf: "wf_graph g" by (rule wf_built [OF assms(1)])
  have sd: "sorted ?bs" "distinct ?bs"
    using sorted_compiled_branches [OF assms(2), of g] by simp_all
  have sbs: "set ?bs = set (edge_branches g) \<union> set (virtual_branches g)"
    by (rule compile_config_branches [OF assms(2)])
  have vm: "?v \<in> set (virtual_branches g)" by (rule storage_virtual_member [OF assms(3,4)])
  have 1: "?v = cn @ ''_delta_soc_branch''" by (simp add: virtual_branch_name_def)
  have 2: "count_list ?bs ?v = 1"
    using sd(2) sbs vm by (intro distinct_count_one) simp_all
  have lk: "pm_lookup (cfg_port_mappings (raw_config g)) cn ''delta_soc'' = Some ?v"
    unfolding raw_config_def storage_step_lookup using assms(3,4) by auto
  then have 3: "pm_lookup (cfg_port_mappings (compile_config set_list g)) cn ''delta_soc'' = Some ?v"
    by (simp add: compile_config_port_mappings)
  have 4: "?v \<notin> set (edge_branches g) \<longrightarrow>
            length ?bs = card (set (edge_branches g) \<union> (set (virtual_branches g) - {?v})) + 1"
  proof
    assume n: "?v \<notin> set (edge_branches g)"
    have "set ?bs = insert ?v (set (edge_branches g) \<union> (set (virtual_branches g) - {?v}))"
      using sbs vm by auto
    moreover have "?v \<notin> set (edge_branches g) \<union> (set (virtual_branches g) - {?v})"
      using n by simp
    ultimately have "card (set ?bs) = Suc (card (set (edge_branches g) \<union> (set (virtual_branches g) - {?v})))"
      by simp
    then show "length ?bs = card (set (edge_branches g) \<union> (set (virtual_branches g) - {?v})) + 1"
      using sd(2) by (simp add: distinct_card)
  qed
  have 5: "\<forall>hub. build set_list g = Inr hub \<longrightarrow>
            (\<exists>i. dict_get (port_to_global_branch_map hub) (cn, ''delta_soc'') = Some i \<and>
                 i < length (global_branches hub) \<and> global_branches hub ! i = ?v)"
    using build_bound [OF wf assms(2) _ lk] by blast
  show ?thesis using 1 2 3 4 5 by blast
qed

theorem storage_virtual_branch_witness:
  "run_calls storage_calls (new_graph_energy_hub ''StorageGraph'') = Inr storage_graph \<and>
   enumeration remdups \<and>
   (''Storage1'', Storage ''Storage1'' (95 / 100) (9 / 10)) \<in> set (component_instances storage_graph) \<and>
   isinstance_Storage (Storage ''Storage1'' (95 / 100) (9 / 10 :: rat)) \<and>
   virtual_branch_name ''Storage1'' \<notin> set (edge_branches storage_graph) \<and>
   length (cfg_branches (compile_config remdups storage_graph)) = 3 \<and>
   pm_lookup (cfg_port_mappings (compile_config remdups storage_graph)) ''Storage1'' ''delta_soc''
     = Some ''Storage1_delta_soc_branch'' \<and>
   (\<exists>hub. build remdups storage_graph = Inr hub \<and>
      dict_get (port_to_global_branch_map hub) (''Storage1'', ''delta_soc'') = Some 1)"
proof -
  note f = storage_graph_facts
  from f have m: "(''Storage1'', Storage ''Storage1'' (95 / 100) (9 / 10)) \<in> set (component_instances storage_graph)"
    and s: "isinstance_Storage (Storage ''Storage1'' (95 / 100) (9 / 10 :: rat))"
    and n: "virtual_branch_name ''Storage1'' \<notin> set (edge_branches storage_graph)"
    and eb: "edge_branches storage_graph =
       [''Storage1_energy_out_to_ElecLoad_in'', ''GasInput_out_to_Storage1_energy_in'']"
    and vb: "virtual_branches storage_graph = [''Storage1_delta_soc_branch'']"
    by blast+
  note t = storage_virtual_branch [OF storage_graph_built enumeration_remdups m s]
  obtain hub where h: "build remdups storage_graph = Inr hub"
    and gb: "global_branches hub = [''GasInput_out_to_Storage1_energy_in'', ''Storage1_delta_soc_branch'',
                             ''Storage1_energy_out_to_ElecLoad_in'']"
    using storage_graph_builds by (auto split: sum.splits)
  from t h obtain i where i: "dict_get (port_to_global_branch_map hub) (''Storage1'', ''delta_soc'') = Some i"
    and il: "i < length (global_branches hub)"
    and iv: "global_branches hub ! i = virtual_branch_name ''Storage1''"
    by blast
  have "i = 1"
    using il iv by (auto simp: gb virtual_branch_name_def nth_Cons' less_Suc_eq numeral_3_eq_3 split: if_splits)
  have l: "length (cfg_branches (compile_config remdups storage_graph)) = 3"
    using t n by (simp add: eb vb virtual_branch_name_def)
  have p: "pm_lookup (cfg_port_mappings (compile_config remdups storage_graph)) ''Storage1'' ''delta_soc''
     = Some ''Storage1_delta_soc_branch''"
    using t by (simp add: virtual_branch_name_def)
  show ?thesis
    using storage_graph_built enumeration_remdups m s n l p h i \<open>i = 1\<close> by blast
qed

text \<open>
  The proviso is needed: the branch list is a set of names, and an edge between the
  nodes \<open>G\<close> and \<open>L\<close> with the ports \<open>x\<close> and \<open>delta_soc_branch\<close> carries the name of
  the virtual branch of a storage unit called \<open>G_x_to_L\<close>. The compiled list then has
  the three branches of the three edges and none in addition.
\<close>

theorem virtual_branch_counterexample:
  "run_calls collision_calls (new_graph_energy_hub ''CollisionGraph'') = Inr collision_graph \<and>
   component_instances collision_graph = [(''G_x_to_L'', Storage ''G_x_to_L'' (95 / 100) (9 / 10))] \<and>
   filter (touches ''G_x_to_L'' ''delta_soc'') (graph_edges collision_graph) = [] \<and>
   edge_branches collision_graph =
     [''G_out_to_G_x_to_L_energy_in'', ''G_x_to_L_delta_soc_branch'', ''G_x_to_L_energy_out_to_L_in''] \<and>
   cfg_branches (compile_config remdups collision_graph) =
     [''G_out_to_G_x_to_L_energy_in'', ''G_x_to_L_delta_soc_branch'', ''G_x_to_L_energy_out_to_L_in''] \<and>
   map_sum id global_branches (build remdups collision_graph) =
     Inr [''G_out_to_G_x_to_L_energy_in'', ''G_x_to_L_delta_soc_branch'', ''G_x_to_L_energy_out_to_L_in''] \<and>
   length (cfg_branches (compile_config remdups collision_graph)) = length (graph_edges collision_graph)"
  by code_simp

subsection \<open>A port shared by several edges\<close>

lemma instance_unique:
  assumes "wf_graph g" and "(cn, c) \<in> set (component_instances g)"
    and "(cn, ci) \<in> set (component_instances g)"
  shows "ci = c"
  using assms by (auto simp: wf_graph_def dest: eq_key_imp_eq_value)

lemma instance_is_node:
  assumes "wf_graph g" and "(cn, c) \<in> set (component_instances g)"
  shows "is_component_node g cn"
  using assms by (auto simp: wf_graph_def)

lemma edge_branch_compiled:
  assumes "enumeration set_list" and "e \<in> set (graph_edges g)"
  shows "edge_branch e \<in> set (cfg_branches (compile_config set_list g))"
  using assms(2) by (simp add: compile_config_branches [OF assms(1)] edge_branches_def)

lemma fan_out_graph_built:
  "run_calls fan_out_calls (new_graph_energy_hub ''FanOut'') = Inr fan_out_graph"
  by code_simp

lemma fan_out_graph_facts:
  "(''CHP1'', CHPBackPressure ''CHP1'' (8 / 10) (3 / 10) [''elec_out''])
     \<in> set (component_instances fan_out_graph) \<and>
   \<not> (''heat_out'' = ''delta_soc'' \<and>
      isinstance_Storage (CHPBackPressure ''CHP1'' (8 / 10) (3 / 10 :: rat) [''elec_out''])) \<and>
   [(''CHP1'', ''HeatLoad1'', \<lparr>from_port = ''heat_out'', to_port = ''in'',
                                branch_name = ''CHP1_heat_out_to_HeatLoad1_in''\<rparr>),
    (''CHP1'', ''HeatLoad2'', \<lparr>from_port = ''heat_out'', to_port = ''in'',
                                branch_name = ''CHP1_heat_out_to_HeatLoad2_in''\<rparr>)]
     = filter (touches ''CHP1'' ''heat_out'') (graph_edges fan_out_graph) \<and>
   covered fan_out_graph"
  by code_simp

lemma fan_out_graph_builds:
  "(case build remdups fan_out_graph of Inl e \<Rightarrow> False | Inr hub \<Rightarrow>
      global_branches hub = [''CHP1_elec_out_to_ElecLoad_in'', ''CHP1_heat_out_to_HeatLoad1_in'',
                             ''CHP1_heat_out_to_HeatLoad2_in'', ''GasInput_out_to_CHP1_fuel_in''])"
  by code_simp

text \<open>
  C9, as amended. Let the port \<open>p\<close> of a component \<open>cn\<close> be an endpoint of one or more
  edges \<open>es\<close> of a graph reached by the builder's calls, \<open>p\<close> not being the virtual port
  of a storage unit. The compiled configuration records one binding for the port, the
  branch of the edge enumerated last; \<open>build\<close> returns a hub whenever every declared
  port is covered; and in every hub it returns the port is bound to the index of that
  branch, while the branch of any other edge at the port stands at another index, so
  that the port is not bound to it.
\<close>

theorem shared_port_binding:
  fixes g :: "('a::field) graph_energy_hub"
  assumes "run_calls calls (new_graph_energy_hub nm) = Inr g"
    and "enumeration set_list"
    and "(cn, c) \<in> set (component_instances g)"
    and "\<not> (p = ''delta_soc'' \<and> isinstance_Storage c)"
    and "es = filter (touches cn p) (graph_edges g)" and "es \<noteq> []"
  shows "pm_lookup (cfg_port_mappings (compile_config set_list g)) cn p
           = Some (edge_branch (last es)) \<and>
         (covered g \<longrightarrow> (\<exists>hub. build set_list g = Inr hub)) \<and>
         (\<forall>hub. build set_list g = Inr hub \<longrightarrow>
            (\<exists>i. dict_get (port_to_global_branch_map hub) (cn, p) = Some i \<and>
                 i < length (global_branches hub) \<and>
                 global_branches hub ! i = edge_branch (last es) \<and>
                 (\<forall>e \<in> set es. edge_branch e \<noteq> edge_branch (last es) \<longrightarrow>
                    (\<exists>j. j < length (global_branches hub) \<and> j \<noteq> i \<and>
                         global_branches hub ! j = edge_branch e))))"
proof -
  let ?b = "edge_branch (last es)"
  have wf: "wf_graph g" by (rule wf_built [OF assms(1)])
  have node: "is_component_node g cn" by (rule instance_is_node [OF wf assms(3)])
  have ns: "\<not> (p = ''delta_soc'' \<and> (\<exists>ci. (cn, ci) \<in> set (component_instances g) \<and> isinstance_Storage ci))"
    using assms(4) instance_unique [OF wf assms(3)] by blast
  have ne: "filter (touches cn p) (graph_edges g) \<noteq> []" using assms(5,6) by simp
  have lk: "pm_lookup (cfg_port_mappings (raw_config g)) cn p = Some ?b"
  proof -
    have "pm_lookup (cfg_port_mappings (raw_config g)) cn p =
          Some (edge_branch (last (filter (touches cn p) (graph_edges g))))"
      unfolding raw_config_lookup [OF node] if_not_P [OF ns] if_not_P [OF ne] by (rule refl)
    then show ?thesis by (simp only: assms(5))
  qed
  then have 1: "pm_lookup (cfg_port_mappings (compile_config set_list g)) cn p = Some ?b"
    by (simp add: compile_config_port_mappings)
  have edges: "graph_edges g \<noteq> []" using ne by auto
  have 2: "covered g \<longrightarrow> (\<exists>hub. build set_list g = Inr hub)"
    using build_succeeds [OF wf assms(2) _ edges] by blast
  have 3: "\<forall>hub. build set_list g = Inr hub \<longrightarrow>
            (\<exists>i. dict_get (port_to_global_branch_map hub) (cn, p) = Some i \<and>
                 i < length (global_branches hub) \<and>
                 global_branches hub ! i = ?b \<and>
                 (\<forall>e \<in> set es. edge_branch e \<noteq> ?b \<longrightarrow>
                    (\<exists>j. j < length (global_branches hub) \<and> j \<noteq> i \<and>
                         global_branches hub ! j = edge_branch e)))"
  proof (intro allI impI)
    fix hub :: "'a energy_hub"
    assume h: "build set_list g = Inr hub"
    from build_bound [OF wf assms(2) h lk]
    obtain i where i: "dict_get (port_to_global_branch_map hub) (cn, p) = Some i"
      and il: "i < length (global_branches hub)"
      and ib: "global_branches hub ! i = ?b"
      by blast
    have gb: "global_branches hub = cfg_branches (compile_config set_list g)"
      by (rule build_branches [OF h])
    have others: "\<forall>e \<in> set es. edge_branch e \<noteq> ?b \<longrightarrow>
           (\<exists>j. j < length (global_branches hub) \<and> j \<noteq> i \<and> global_branches hub ! j = edge_branch e)"
    proof (intro ballI impI)
      fix e assume e: "e \<in> set es" and d: "edge_branch e \<noteq> ?b"
      have "e \<in> set (graph_edges g)" using e assms(5) by simp
      then have "edge_branch e \<in> set (global_branches hub)"
        unfolding gb by (rule edge_branch_compiled [OF assms(2)])
      then obtain j where j: "j < length (global_branches hub)" "global_branches hub ! j = edge_branch e"
        by (auto simp: in_set_conv_nth)
      have "j \<noteq> i" using j(2) ib d by auto
      then show "\<exists>j. j < length (global_branches hub) \<and> j \<noteq> i \<and> global_branches hub ! j = edge_branch e"
        using j by blast
    qed
    show "\<exists>i. dict_get (port_to_global_branch_map hub) (cn, p) = Some i \<and>
                 i < length (global_branches hub) \<and>
                 global_branches hub ! i = ?b \<and>
                 (\<forall>e \<in> set es. edge_branch e \<noteq> ?b \<longrightarrow>
                    (\<exists>j. j < length (global_branches hub) \<and> j \<noteq> i \<and>
                         global_branches hub ! j = edge_branch e))"
      using i il ib others by blast
  qed
  show ?thesis using 1 2 3 by blast
qed

theorem shared_port_binding_witness:
  "run_calls fan_out_calls (new_graph_energy_hub ''FanOut'') = Inr fan_out_graph \<and>
   enumeration remdups \<and>
   (''CHP1'', CHPBackPressure ''CHP1'' (8 / 10) (3 / 10) [''elec_out''])
     \<in> set (component_instances fan_out_graph) \<and>
   \<not> (''heat_out'' = ''delta_soc'' \<and>
      isinstance_Storage (CHPBackPressure ''CHP1'' (8 / 10) (3 / 10 :: rat) [''elec_out''])) \<and>
   [(''CHP1'', ''HeatLoad1'', \<lparr>from_port = ''heat_out'', to_port = ''in'',
                                branch_name = ''CHP1_heat_out_to_HeatLoad1_in''\<rparr>),
    (''CHP1'', ''HeatLoad2'', \<lparr>from_port = ''heat_out'', to_port = ''in'',
                                branch_name = ''CHP1_heat_out_to_HeatLoad2_in''\<rparr>)]
     = filter (touches ''CHP1'' ''heat_out'') (graph_edges fan_out_graph) \<and>
   covered fan_out_graph \<and>
   pm_lookup (cfg_port_mappings (compile_config remdups fan_out_graph)) ''CHP1'' ''heat_out''
     = Some ''CHP1_heat_out_to_HeatLoad2_in'' \<and>
   (\<exists>hub. build remdups fan_out_graph = Inr hub \<and>
      dict_get (port_to_global_branch_map hub) (''CHP1'', ''heat_out'') = Some 2 \<and>
      global_branches hub ! 2 = ''CHP1_heat_out_to_HeatLoad2_in'' \<and>
      global_branches hub ! 1 = ''CHP1_heat_out_to_HeatLoad1_in'')"
proof -
  let ?e1 = "(''CHP1'', ''HeatLoad1'', \<lparr>from_port = ''heat_out'', to_port = ''in'',
                                branch_name = ''CHP1_heat_out_to_HeatLoad1_in''\<rparr>)"
  let ?e2 = "(''CHP1'', ''HeatLoad2'', \<lparr>from_port = ''heat_out'', to_port = ''in'',
                                branch_name = ''CHP1_heat_out_to_HeatLoad2_in''\<rparr>)"
  let ?c = "CHPBackPressure ''CHP1'' (8 / 10) (3 / 10 :: rat) [''elec_out'']"
  note f = fan_out_graph_facts
  from f have m: "(''CHP1'', ?c) \<in> set (component_instances fan_out_graph)"
    and s: "\<not> (''heat_out'' = ''delta_soc'' \<and> isinstance_Storage ?c)"
    and es: "[?e1, ?e2] = filter (touches ''CHP1'' ''heat_out'') (graph_edges fan_out_graph)"
    and cv: "covered fan_out_graph"
    by blast+
  have ne: "[?e1, ?e2] \<noteq> []" by simp
  note t = shared_port_binding [OF fan_out_graph_built enumeration_remdups m s es ne]
  have b: "edge_branch (last [?e1, ?e2]) = ''CHP1_heat_out_to_HeatLoad2_in''"
    by (simp add: edge_branch_def)
  obtain hub where h: "build remdups fan_out_graph = Inr hub"
    and gb: "global_branches hub = [''CHP1_elec_out_to_ElecLoad_in'', ''CHP1_heat_out_to_HeatLoad1_in'',
                             ''CHP1_heat_out_to_HeatLoad2_in'', ''GasInput_out_to_CHP1_fuel_in'']"
    using fan_out_graph_builds by (auto split: sum.splits)
  from t h obtain i where i: "dict_get (port_to_global_branch_map hub) (''CHP1'', ''heat_out'') = Some i"
    and il: "i < length (global_branches hub)"
    and iv: "global_branches hub ! i = edge_branch (last [?e1, ?e2])"
    by blast
  have d: "distinct (global_branches hub)" by (simp add: gb)
  have g2: "global_branches hub ! 2 = ''CHP1_heat_out_to_HeatLoad2_in''" by (simp add: gb)
  have g1: "global_branches hub ! 1 = ''CHP1_heat_out_to_HeatLoad1_in''" by (simp add: gb)
  have l2: "2 < length (global_branches hub)" by (simp add: gb)
  have "global_branches hub ! i = global_branches hub ! 2" using iv b g2 by simp
  then have i2: "i = 2" using nth_eq_iff_index_eq [OF d il l2] by simp
  have p: "pm_lookup (cfg_port_mappings (compile_config remdups fan_out_graph)) ''CHP1'' ''heat_out''
     = Some ''CHP1_heat_out_to_HeatLoad2_in''"
    using t b by simp
  show ?thesis
    using fan_out_graph_built enumeration_remdups m s es cv p h i i2 g2 g1 by blast
qed

text \<open>
  The virtual port of a storage unit is the exception: the loop over the storage units
  runs after the loop over the edges and overwrites the binding, so with two edges
  into \<open>delta_soc\<close> the port is bound to the virtual branch and to neither edge.
\<close>

theorem shared_port_counterexample:
  "run_calls shadow_calls (new_graph_energy_hub ''Shadow'') = Inr shadow_graph \<and>
   component_instances shadow_graph = [(''S1'', Storage ''S1'' (95 / 100) (9 / 10))] \<and>
   map edge_branch (filter (touches ''S1'' ''delta_soc'') (graph_edges shadow_graph))
     = [''G2_out_to_S1_delta_soc'', ''G3_out_to_S1_delta_soc''] \<and>
   pm_lookup (cfg_port_mappings (compile_config remdups shadow_graph)) ''S1'' ''delta_soc''
     = Some ''S1_delta_soc_branch'' \<and>
   pm_lookup (cfg_port_mappings (compile_config remdups shadow_graph)) ''S1'' ''delta_soc''
     \<noteq> Some ''G3_out_to_S1_delta_soc'' \<and>
   map_sum id global_branches (build remdups shadow_graph) =
     Inr [''G1_out_to_S1_energy_in'', ''G2_out_to_S1_delta_soc'', ''G3_out_to_S1_delta_soc'',
          ''S1_delta_soc_branch'', ''S1_energy_out_to_L_in''] \<and>
   map_sum id port_to_global_branch_map (build remdups shadow_graph) =
     Inr [((''S1'', ''energy_out''), 4), ((''S1'', ''energy_in''), 0), ((''S1'', ''delta_soc''), 3)]"
  by code_simp

end
